theory Spec2Isabelle
  imports Complex_Main "HOL-Library.AList" "HOL-Library.Word"
begin

section \<open>The Host network role (game/network/ServerNetwork.ts)\<close>

text \<open>
  The class \<open>ServerNetwork\<close> is embedded by explicit state passing. Every method and
  every listener body is a function from the state before to the state after; the
  JavaScript runtime is single threaded, so each of them runs to completion before the
  next one starts. An event emitter runs its listeners inside the call of \<open>emit\<close>, so a
  method of the transport library that emits an event runs the host's listener for it
  before it returns; the model follows these calls.

  Record fields carry a prefix naming their record, because several source objects share
  field names: \<open>dc_peer\<close> is \<open>connection.peer\<close>, \<open>dc_metadata\<close> is
  \<open>connection.metadata\<close>, \<open>msg_peer\<close> is the \<open>peer\<close> field of an envelope,
  \<open>sn_peer\<close> is \<open>this.peer\<close>, and so on.
\<close>

datatype NetworkStatus = Disconnected | Connecting | Connected

record Metadata =
  md_name :: string
  md_tank :: string

text \<open>
  The id of a \<open>Peer\<close> object is a string or \<open>null\<close>: the transport resets it to \<open>null\<close>
  when the peer disconnects. The host copies it into the \<open>uuid\<close> of its own peer data
  and into the \<open>peer\<close> field of the envelopes it sends, so both fields are optional
  strings, \<open>None\<close> standing for \<open>null\<close>.
\<close>

record PeerData =
  pd_uuid :: "string option"
  pd_metadata :: Metadata

text \<open>
  A \<open>DataConnection\<close> of the transport library. The source compares connections by
  reference (\<open>connection !== exclude\<close>, membership in a \<open>Set\<close>); \<open>dc_ref\<close> stands for the
  identity of the object, so that two different connection objects may carry the same
  remote peer id and metadata. The source reads \<open>connection.metadata\<close> under the cast
  \<open>as Metadata\<close>; the model gives it that type.
\<close>

record DataConnection =
  dc_ref :: nat
  dc_peer :: string
  dc_metadata :: Metadata

text \<open>
  The payload of an envelope is \<open>unknown\<close> in the source. The two shapes the network
  layer builds itself (\<open>{peer, peers}\<close> on the channels join and leave) are the
  constructor \<open>Roster\<close>; everything else is an opaque value of the type parameter.
\<close>

datatype 'a Payload = Roster PeerData "PeerData list" | App 'a

record 'a Message =
  msg_channel :: string
  msg_data :: "'a Payload"
  msg_peer :: "string option"

text \<open>
  What \<open>this.emit\<close> delivers to local listeners, in order. \<open>Dispatch\<close> is the local
  delivery of a received envelope to the channel listeners. The listeners of these
  events belong to the application; they are taken not to call back into the host while
  it is in the middle of a method.
\<close>

datatype 'a Emitted =
    Status NetworkStatus
  | Peers "PeerData list"
  | Join string
  | Leave string
  | Dispatch DataConnection "'a Message"

datatype Promise = Pending | Resolved | Rejected string

text \<open>
  One \<open>Peer\<close> object created by a call of \<open>connect\<close>, together with the promise that
  call returned. \<open>pe_id\<close>, \<open>pe_disconnected\<close> and \<open>pe_destroyed\<close> are the properties
  \<open>id\<close>, \<open>disconnected\<close> and \<open>destroyed\<close> of the object, \<open>pe_connections\<close> the data
  connections it has received, in the order of their arrival. The three \<open>once\<close>
  listeners are flags that fall when the listener has fired or has been removed;
  \<open>pe_connection_l\<close> is the \<open>on('connection')\<close> listener that the open listener
  registers.
\<close>

record PeerObj =
  pe_id :: "string option"
  pe_disconnected :: bool
  pe_destroyed :: bool
  pe_connections :: "DataConnection list"
  pe_open_l :: bool
  pe_disconnected_l :: bool
  pe_error_l :: bool
  pe_connection_l :: bool
  pe_promise :: Promise

text \<open>
  The state of a \<open>ServerNetwork\<close>. \<open>sn_peer\<close> is \<open>this.peer\<close>: a reference into the
  store \<open>sn_peerObjs\<close> of the \<open>Peer\<close> objects created so far. \<open>sn_connections\<close> is the
  \<open>Set\<close> of connections in insertion order. Of the data connections the state records
  which are open (\<open>sn_open\<close>, the property \<open>open\<close>), on which \<open>close()\<close> has run
  (\<open>sn_closed\<close>), which have the \<open>once('open')\<close> listener of \<open>addConnection\<close>
  registered (\<open>sn_awaiting\<close>) and which have its data, close and error listeners
  registered (\<open>sn_listening\<close>). \<open>sn_wire\<close> logs every \<open>connection.send(data)\<close> and
  \<open>sn_emitted\<close> every local event.
\<close>

record 'a ServerNetwork =
  sn_id :: string
  sn_peer :: "nat option"
  sn_connections :: "DataConnection list"
  sn_handleConnection :: "(DataConnection \<Rightarrow> bool) option"
  sn_metadata :: "Metadata option"
  sn_peerObjs :: "PeerObj list"
  sn_open :: "DataConnection list"
  sn_closed :: "DataConnection list"
  sn_awaiting :: "DataConnection list"
  sn_listening :: "DataConnection list"
  sn_wire :: "(DataConnection \<times> 'a Message) list"
  sn_emitted :: "'a Emitted list"

definition newServerNetwork :: "string \<Rightarrow> 'a ServerNetwork" where
  "newServerNetwork ident =
     \<lparr>sn_id = ident, sn_peer = None, sn_connections = [], sn_handleConnection = None,
      sn_metadata = None, sn_peerObjs = [], sn_open = [], sn_closed = [], sn_awaiting = [],
      sn_listening = [], sn_wire = [], sn_emitted = []\<rparr>"

subsection \<open>Sets in insertion order\<close>

definition set_add :: "'b \<Rightarrow> 'b list \<Rightarrow> 'b list" where
  "set_add x xs = (if x \<in> set xs then xs else xs @ [x])"

definition set_delete :: "'b \<Rightarrow> 'b list \<Rightarrow> 'b list" where
  "set_delete x xs = filter (\<lambda>y. y \<noteq> x) xs"

subsection \<open>Methods\<close>

definition emit :: "'a Emitted \<Rightarrow> 'a ServerNetwork \<Rightarrow> 'a ServerNetwork" where
  "emit e s = s\<lparr>sn_emitted := sn_emitted s @ [e]\<rparr>"

text \<open>\<open>broadcast(data, exclude?)\<close>: one \<open>connection.send(data)\<close> for every connection of the
  set other than \<open>exclude\<close>, in the order of the set. Every connection of the set is
  open whenever the host broadcasts (lemma \<open>connections_open_reachable\<close> below), so
  that \<open>connection.send\<close> puts the envelope on the connection and does nothing else.\<close>

definition broadcast ::
  "'a Message \<Rightarrow> DataConnection option \<Rightarrow> 'a ServerNetwork \<Rightarrow> 'a ServerNetwork" where
  "broadcast m exclude s =
     s\<lparr>sn_wire := sn_wire s @
          map (\<lambda>c. (c, m)) (filter (\<lambda>c. Some c \<noteq> exclude) (sn_connections s))\<rparr>"

text \<open>
  \<open>thisPeer\<close> reads the object that \<open>this.peer\<close> refers to; it is \<open>None\<close> when
  \<open>this.peer\<close> is \<open>undefined\<close>. (A reference is an index of the store; one outside
  the store stands for no object.)
\<close>

definition thisPeer :: "'a ServerNetwork \<Rightarrow> PeerObj option" where
  "thisPeer s =
     (case sn_peer s of
        None \<Rightarrow> None
      | Some r \<Rightarrow> if r < length (sn_peerObjs s) then Some (sn_peerObjs s ! r) else None)"

definition send :: "string \<Rightarrow> 'a Payload \<Rightarrow> 'a ServerNetwork \<Rightarrow> 'a ServerNetwork" where
  "send ch d s =
     (case thisPeer s of
        Some p \<Rightarrow> broadcast \<lparr>msg_channel = ch, msg_data = d, msg_peer = pe_id p\<rparr> None s
      | None \<Rightarrow> s)"

text \<open>
  Modelled from the spec: \<open>this.channel(name).send(data)\<close> of the base class
  \<open>Network\<close>, which is not among the sources. The spec (4.2) says the handle's
  \<open>send\<close> wraps the payload as an envelope tagged with the channel name and transmits it
  through the role's own \<open>send\<close>.
\<close>

definition channel_send :: "string \<Rightarrow> 'a Payload \<Rightarrow> 'a ServerNetwork \<Rightarrow> 'a ServerNetwork" where
  "channel_send ch d s = send ch d s"

text \<open>
  Modelled from the spec: \<open>super.handleMessage(connection, data)\<close> of the base class
  \<open>Network\<close>, which is not among the sources. The spec (4.2) says the channel bus
  dispatches an incoming envelope to the listeners registered for its channel name; it
  is a local delivery and puts nothing on a connection.
\<close>

definition super_handleMessage ::
  "DataConnection \<Rightarrow> 'a Message \<Rightarrow> 'a ServerNetwork \<Rightarrow> 'a ServerNetwork" where
  "super_handleMessage c m s = emit (Dispatch c m) s"

definition getPeerData :: "'a ServerNetwork \<Rightarrow> PeerData option" where
  "getPeerData s =
     (case sn_metadata s of
        None \<Rightarrow> None
      | Some md \<Rightarrow>
          (case thisPeer s of
             None \<Rightarrow> None
           | Some p \<Rightarrow> Some \<lparr>pd_uuid = pe_id p, pd_metadata = md\<rparr>))"

definition peerDataOf :: "DataConnection \<Rightarrow> PeerData" where
  "peerDataOf c = \<lparr>pd_uuid = Some (dc_peer c), pd_metadata = dc_metadata c\<rparr>"

definition connectedPeers :: "'a ServerNetwork \<Rightarrow> PeerData list" where
  "connectedPeers s =
     map peerDataOf (sn_connections s) @
     (case getPeerData s of Some p \<Rightarrow> [p] | None \<Rightarrow> [])"

text \<open>\<open>handleMessage(connection, data)\<close>: local dispatch, then the relay
  \<open>broadcast({...data, peer: connection.peer}, connection)\<close>.\<close>

definition handleMessage ::
  "DataConnection \<Rightarrow> 'a Message \<Rightarrow> 'a ServerNetwork \<Rightarrow> 'a ServerNetwork" where
  "handleMessage c m s =
     broadcast (m\<lparr>msg_peer := Some (dc_peer c)\<rparr>) (Some c) (super_handleMessage c m s)"

text \<open>
  \<open>removeConnection(connection)\<close> and the method \<open>close()\<close> of the transport's
  \<open>DataConnection\<close> that it calls first. \<open>close()\<close> on an open connection marks it
  closed and emits the event close at once, while the listeners of the connection are
  still registered: the close listener of \<open>addConnection\<close> runs \<open>removeConnection\<close>
  inside the call. On a connection that is not open \<open>close()\<close> emits nothing.
  After \<open>close()\<close> has returned, \<open>removeConnection\<close> removes all listeners of the
  connection, takes it out of the set, computes and emits the peer list, emits leave
  locally, and sends the leave envelope through \<open>this.channel('leave').send\<close>.
\<close>

function removeConnection :: "DataConnection \<Rightarrow> 'a ServerNetwork \<Rightarrow> 'a ServerNetwork"
  and connectionClose :: "DataConnection \<Rightarrow> 'a ServerNetwork \<Rightarrow> 'a ServerNetwork" where
  "removeConnection c s =
     (let s1 = connectionClose c s;
          s2 = s1\<lparr>sn_listening := set_delete c (sn_listening s1),
                  sn_awaiting := set_delete c (sn_awaiting s1)\<rparr>;
          s3 = s2\<lparr>sn_connections := set_delete c (sn_connections s2)\<rparr>;
          peers = connectedPeers s3;
          s4 = emit (Peers peers) s3;
          s5 = emit (Leave (md_name (dc_metadata c))) s4
      in channel_send ''leave'' (Roster (peerDataOf c) peers) s5)"
| "connectionClose c s =
     (if c \<in> set (sn_open s) then
        (let s1 = s\<lparr>sn_open := set_delete c (sn_open s), sn_closed := set_add c (sn_closed s)\<rparr>
         in if c \<in> set (sn_listening s1) then removeConnection c s1 else s1)
      else s\<lparr>sn_closed := set_add c (sn_closed s)\<rparr>)"
  by pat_completeness auto

termination
  by (relation "measures
        [\<lambda>x. case x of Inl cs \<Rightarrow> length (sn_open (snd cs)) | Inr cs \<Rightarrow> length (sn_open (snd cs)),
         \<lambda>x. case x of Inl cs \<Rightarrow> 1 | Inr cs \<Rightarrow> 0]")
    (auto simp: set_delete_def intro: length_filter_less)

declare removeConnection.simps [simp del] connectionClose.simps [simp del]

text \<open>
  Settling a promise: \<open>resolve\<close> and \<open>reject\<close> act on a pending promise only.
\<close>

definition resolve :: "Promise \<Rightarrow> Promise" where
  "resolve p = (case p of Pending \<Rightarrow> Resolved | _ \<Rightarrow> p)"

definition reject :: "string \<Rightarrow> Promise \<Rightarrow> Promise" where
  "reject e p = (case p of Pending \<Rightarrow> Rejected e | _ \<Rightarrow> p)"

definition updPeerObj ::
  "nat \<Rightarrow> (PeerObj \<Rightarrow> PeerObj) \<Rightarrow> 'a ServerNetwork \<Rightarrow> 'a ServerNetwork" where
  "updPeerObj r f s =
     (if r < length (sn_peerObjs s)
      then s\<lparr>sn_peerObjs := (sn_peerObjs s)[r := f (sn_peerObjs s ! r)]\<rparr>
      else s)"

definition listens :: "(PeerObj \<Rightarrow> bool) \<Rightarrow> nat \<Rightarrow> 'a ServerNetwork \<Rightarrow> bool" where
  "listens l r s = (r < length (sn_peerObjs s) \<and> l (sn_peerObjs s ! r))"

text \<open>
  The part of \<open>Peer.destroy()\<close> of the transport that closes the data connections of
  the peer, each by its method \<open>close()\<close>, in the order of their arrival.
\<close>

definition peerCleanup :: "nat \<Rightarrow> 'a ServerNetwork \<Rightarrow> 'a ServerNetwork" where
  "peerCleanup r s = foldl (\<lambda>s' c. connectionClose c s') s (pe_connections (sn_peerObjs s ! r))"

text \<open>\<open>peer.removeAllListeners()\<close>.\<close>

definition peerRemoveAllListeners :: "nat \<Rightarrow> 'a ServerNetwork \<Rightarrow> 'a ServerNetwork" where
  "peerRemoveAllListeners r s =
     updPeerObj r (\<lambda>p. p\<lparr>pe_open_l := False, pe_disconnected_l := False, pe_error_l := False,
                         pe_connection_l := False\<rparr>) s"

text \<open>
  \<open>disconnect()\<close> of the host and the two methods of the transport's \<open>Peer\<close> that it
  reaches. \<open>Peer.destroy()\<close> returns at once on a destroyed peer; otherwise it calls
  \<open>Peer.disconnect()\<close>, closes the data connections of the peer and then marks the peer
  destroyed. \<open>Peer.disconnect()\<close> returns at once on a disconnected peer; otherwise it
  marks the peer disconnected, resets its id to \<open>null\<close> and emits the event
  disconnected, so that the \<open>once('disconnected')\<close> listener registered by \<open>connect\<close>,
  if it is still there, runs the host's \<open>disconnect()\<close> inside the call. The host's
  \<open>disconnect()\<close> reads \<open>this.peer\<close> twice: for \<open>destroy()\<close> and, afterwards, for
  \<open>removeAllListeners()\<close>; then it clears the connection set, resets \<open>this.peer\<close>
  and emits the status Disconnected.
\<close>

function disconnect :: "'a ServerNetwork \<Rightarrow> 'a ServerNetwork"
  and peerDestroy :: "nat \<Rightarrow> 'a ServerNetwork \<Rightarrow> 'a ServerNetwork"
  and peerDisconnect :: "nat \<Rightarrow> 'a ServerNetwork \<Rightarrow> 'a ServerNetwork" where
  "disconnect s =
     (let s1 = (case sn_peer s of None \<Rightarrow> s | Some r \<Rightarrow> peerDestroy r s);
          s2 = (case sn_peer s1 of None \<Rightarrow> s1 | Some r \<Rightarrow> peerRemoveAllListeners r s1);
          s3 = s2\<lparr>sn_connections := [], sn_peer := None\<rparr>
      in emit (Status Disconnected) s3)"
| "peerDestroy r s =
     (if r < length (sn_peerObjs s) \<and> \<not> pe_destroyed (sn_peerObjs s ! r) then
        (let s1 = peerDisconnect r s;
             s2 = peerCleanup r s1
         in updPeerObj r (\<lambda>p. p\<lparr>pe_destroyed := True\<rparr>) s2)
      else s)"
| "peerDisconnect r s =
     (if r < length (sn_peerObjs s) \<and> \<not> pe_disconnected (sn_peerObjs s ! r) then
        (let s1 = updPeerObj r (\<lambda>p. p\<lparr>pe_disconnected := True, pe_id := None\<rparr>) s
         in if pe_disconnected_l (sn_peerObjs s1 ! r)
            then disconnect (updPeerObj r (\<lambda>p. p\<lparr>pe_disconnected_l := False\<rparr>) s1)
            else s1)
      else s)"
  by pat_completeness auto

text \<open>The recursion ends because a peer emits the event disconnected once: the number
  of peers that are not disconnected falls with every nested call.\<close>

termination
  by (relation "measures
        [\<lambda>x. let s = (case x of Inl s \<Rightarrow> s | Inr (Inl rs) \<Rightarrow> snd rs | Inr (Inr rs) \<Rightarrow> snd rs)
             in card {i. i < length (sn_peerObjs s) \<and> \<not> pe_disconnected (sn_peerObjs s ! i)},
         \<lambda>x. case x of Inl s \<Rightarrow> 2 | Inr (Inl rs) \<Rightarrow> 1 | Inr (Inr rs) \<Rightarrow> 0]")
    (auto simp: updPeerObj_def nth_list_update intro!: psubset_card_mono)

declare disconnect.simps [simp del] peerDestroy.simps [simp del] peerDisconnect.simps [simp del]

text \<open>
  \<open>connect(options)\<close>: the body of the promise executor runs at once: the metadata is
  stored, \<open>disconnect()\<close> runs, Connecting is emitted, and a new \<open>Peer\<close> is created under
  the host's id with its three \<open>once\<close> listeners; the promise is pending. The new object
  is the last one of the store.
\<close>

definition newPeer :: "string \<Rightarrow> PeerObj" where
  "newPeer ident =
     \<lparr>pe_id = Some ident, pe_disconnected = False, pe_destroyed = False, pe_connections = [],
      pe_open_l = True, pe_disconnected_l = True, pe_error_l = True,
      pe_connection_l = False, pe_promise = Pending\<rparr>"

definition connect :: "Metadata \<Rightarrow> 'a ServerNetwork \<Rightarrow> 'a ServerNetwork" where
  "connect md s =
     (let s1 = s\<lparr>sn_metadata := Some md\<rparr>;
          s2 = disconnect s1;
          s3 = emit (Status Connecting) s2
      in s3\<lparr>sn_peerObjs := sn_peerObjs s3 @ [newPeer (sn_id s3)]\<rparr>)"

text \<open>
  The open and error listeners of the \<open>Peer\<close> object \<open>r\<close>. A \<open>once\<close> listener is
  removed before its body runs. The open listener emits Connected, registers the
  connection listener, sets \<open>this.peer\<close>, emits the peer list and resolves the promise;
  the error listener disconnects and rejects the promise. (The body of the disconnected
  listener is the call of \<open>disconnect\<close> in \<open>peerDisconnect\<close>.)
\<close>

definition onPeerOpen :: "nat \<Rightarrow> 'a ServerNetwork \<Rightarrow> 'a ServerNetwork" where
  "onPeerOpen r s =
     (if listens pe_open_l r s then
        (let s1 = updPeerObj r (\<lambda>p. p\<lparr>pe_open_l := False\<rparr>) s;
             s2 = emit (Status Connected) s1;
             s3 = updPeerObj r (\<lambda>p. p\<lparr>pe_connection_l := True\<rparr>) s2;
             s4 = s3\<lparr>sn_peer := Some r\<rparr>;
             s5 = emit (Peers (connectedPeers s4)) s4
         in updPeerObj r (\<lambda>p. p\<lparr>pe_promise := resolve (pe_promise p)\<rparr>) s5)
      else s)"

definition onPeerError :: "nat \<Rightarrow> string \<Rightarrow> 'a ServerNetwork \<Rightarrow> 'a ServerNetwork" where
  "onPeerError r e s =
     (if listens pe_error_l r s then
        (let s1 = updPeerObj r (\<lambda>p. p\<lparr>pe_error_l := False\<rparr>) s;
             s2 = disconnect s1
         in updPeerObj r (\<lambda>p. p\<lparr>pe_promise := reject e (pe_promise p)\<rparr>) s2)
      else s)"

text \<open>\<open>addConnection(connection)\<close> registers the \<open>once('open')\<close> listener.\<close>

definition addConnection :: "DataConnection \<Rightarrow> 'a ServerNetwork \<Rightarrow> 'a ServerNetwork" where
  "addConnection c s = s\<lparr>sn_awaiting := set_add c (sn_awaiting s)\<rparr>"

text \<open>
  The body of that listener: the data, close and error listeners are registered, the
  connection enters the set, the peer list is computed and emitted, join is emitted
  locally with the name of the new peer, and the join envelope goes out through
  \<open>this.channel('join').send\<close>.
\<close>

definition onConnectionOpen :: "DataConnection \<Rightarrow> 'a ServerNetwork \<Rightarrow> 'a ServerNetwork" where
  "onConnectionOpen c s =
     (let s1 = s\<lparr>sn_listening := set_add c (sn_listening s),
                 sn_connections := set_add c (sn_connections s)\<rparr>;
          peers = connectedPeers s1;
          s2 = emit (Peers peers) s1;
          s3 = emit (Join (md_name (dc_metadata c))) s2
      in channel_send ''join'' (Roster (peerDataOf c) peers) s3)"

text \<open>
  The connection listener of the \<open>Peer\<close> object \<open>r\<close>:
  \<open>if (await this.handleConnection?.(conn) ?? true) addConnection(conn) else conn.close()\<close>.
  The admission predicate is a function of the connection. The transport files the
  connection with the peer before it emits the event.
\<close>

definition admits :: "'a ServerNetwork \<Rightarrow> DataConnection \<Rightarrow> bool" where
  "admits s c = (case sn_handleConnection s of None \<Rightarrow> True | Some f \<Rightarrow> f c)"

definition onPeerConnection ::
  "nat \<Rightarrow> DataConnection \<Rightarrow> 'a ServerNetwork \<Rightarrow> 'a ServerNetwork" where
  "onPeerConnection r c s =
     (let s1 = updPeerObj r (\<lambda>p. p\<lparr>pe_connections := set_add c (pe_connections p)\<rparr>) s
      in if listens pe_connection_l r s1
         then (if admits s1 c then addConnection c s1 else connectionClose c s1)
         else s1)"

definition setHandleConnection ::
  "(DataConnection \<Rightarrow> bool) \<Rightarrow> 'a ServerNetwork \<Rightarrow> 'a ServerNetwork" where
  "setHandleConnection f s = s\<lparr>sn_handleConnection := Some f\<rparr>"

subsection \<open>Runs of the Host\<close>

text \<open>
  Everything that can happen to a host: a call of one of its public methods, or an
  event of the transport. \<open>PeerOpen\<close>, \<open>PeerError\<close> and \<open>PeerConnection\<close> are the
  events open, error and connection of a \<open>Peer\<close> object, delivered to the listener if
  it is registered. \<open>PeerDisconnected\<close> is the transport's own call of
  \<open>Peer.disconnect()\<close> when the peer loses its server. \<open>ConnOpen\<close> is the opening of a
  data connection, which happens once and never after \<open>close()\<close>; \<open>ConnData\<close> and
  \<open>ConnError\<close> are the events data and error of a connection; \<open>ConnClose\<close> is the
  transport's own call of \<open>close()\<close> when the remote side has closed the connection.
\<close>

datatype 'a Event =
    CallConnect Metadata
  | CallDisconnect
  | CallSend string "'a Payload"
  | CallSetHandleConnection "DataConnection \<Rightarrow> bool"
  | PeerOpen nat
  | PeerDisconnected nat
  | PeerError nat string
  | PeerConnection nat DataConnection
  | ConnOpen DataConnection
  | ConnData DataConnection "'a Message"
  | ConnClose DataConnection
  | ConnError DataConnection

fun step :: "'a Event \<Rightarrow> 'a ServerNetwork \<Rightarrow> 'a ServerNetwork" where
  "step (CallConnect md) s = connect md s"
| "step CallDisconnect s = disconnect s"
| "step (CallSend ch d) s = send ch d s"
| "step (CallSetHandleConnection f) s = setHandleConnection f s"
| "step (PeerOpen r) s = onPeerOpen r s"
| "step (PeerDisconnected r) s = peerDisconnect r s"
| "step (PeerError r e) s = onPeerError r e s"
| "step (PeerConnection r c) s = onPeerConnection r c s"
| "step (ConnOpen c) s =
     (if c \<in> set (sn_open s) \<or> c \<in> set (sn_closed s) then s
      else
        (let s1 = s\<lparr>sn_open := set_add c (sn_open s)\<rparr>
         in if c \<in> set (sn_awaiting s1)
            then onConnectionOpen c (s1\<lparr>sn_awaiting := set_delete c (sn_awaiting s1)\<rparr>)
            else s1))"
| "step (ConnData c m) s = (if c \<in> set (sn_listening s) then handleMessage c m s else s)"
| "step (ConnClose c) s = connectionClose c s"
| "step (ConnError c) s = (if c \<in> set (sn_listening s) then removeConnection c s else s)"

fun run :: "'a Event list \<Rightarrow> 'a ServerNetwork \<Rightarrow> 'a ServerNetwork" where
  "run [] s = s"
| "run (e # es) s = run es (step e s)"

text \<open>The channels named by the envelopes that clients delivered and by the
  application's own calls of \<open>send\<close> within a run.\<close>

fun eventChannels :: "'a Event \<Rightarrow> string list" where
  "eventChannels (CallSend ch d) = [ch]"
| "eventChannels (ConnData c m) = [msg_channel m]"
| "eventChannels _ = []"

text \<open>The channel names of all the envelopes written on connections so far.\<close>

definition wireChannels :: "'a ServerNetwork \<Rightarrow> string set" where
  "wireChannels s = set (map (\<lambda>cm. msg_channel (snd cm)) (sn_wire s))"

text \<open>The network status is the status last emitted; a new object is Disconnected.\<close>

definition statusOf :: "'a Emitted list \<Rightarrow> NetworkStatus" where
  "statusOf es =
     foldl (\<lambda>st e. case e of Status st' \<Rightarrow> st' | _ \<Rightarrow> st) Disconnected es"

text \<open>The sends a step added to the log: what was written on the wire between two states.\<close>

definition sentBetween ::
  "'a ServerNetwork \<Rightarrow> 'a ServerNetwork \<Rightarrow> (DataConnection \<times> 'a Message) list" where
  "sentBetween s s' = drop (length (sn_wire s)) (sn_wire s')"

definition emittedBetween :: "'a ServerNetwork \<Rightarrow> 'a ServerNetwork \<Rightarrow> 'a Emitted list" where
  "emittedBetween s s' = drop (length (sn_emitted s)) (sn_emitted s')"

subsection \<open>Notions for the proofs about the Host\<close>

text \<open>
  \<open>markClosed\<close> is what \<open>close()\<close> does to the connection itself, and \<open>afterClose\<close>
  is the part of \<open>removeConnection\<close> that follows the call of \<open>close()\<close>; the two
  methods are compositions of them (lemmas \<open>connectionClose_eq\<close> and
  \<open>removeConnection_eq\<close>). \<open>beforeReset\<close> is the part of \<open>disconnect\<close> that
  precedes \<open>this.connections.clear()\<close>.
\<close>

definition markClosed :: "DataConnection \<Rightarrow> 'a ServerNetwork \<Rightarrow> 'a ServerNetwork" where
  "markClosed c s = s\<lparr>sn_open := set_delete c (sn_open s), sn_closed := set_add c (sn_closed s)\<rparr>"

definition afterClose :: "DataConnection \<Rightarrow> 'a ServerNetwork \<Rightarrow> 'a ServerNetwork" where
  "afterClose c s1 =
     (let s2 = s1\<lparr>sn_listening := set_delete c (sn_listening s1),
                  sn_awaiting := set_delete c (sn_awaiting s1)\<rparr>;
          s3 = s2\<lparr>sn_connections := set_delete c (sn_connections s2)\<rparr>;
          peers = connectedPeers s3;
          s4 = emit (Peers peers) s3;
          s5 = emit (Leave (md_name (dc_metadata c))) s4
      in channel_send ''leave'' (Roster (peerDataOf c) peers) s5)"

definition beforeReset :: "'a ServerNetwork \<Rightarrow> 'a ServerNetwork" where
  "beforeReset s =
     (let s1 = (case sn_peer s of None \<Rightarrow> s | Some r \<Rightarrow> peerDestroy r s)
      in case sn_peer s1 of None \<Rightarrow> s1 | Some r \<Rightarrow> peerRemoveAllListeners r s1)"

text \<open>
  A peer list is the host's own when it is made of the peer data of connections out of
  a given set, followed by at most one entry that carries the host's metadata.
\<close>

definition ownRoster :: "DataConnection set \<Rightarrow> Metadata option \<Rightarrow> PeerData list \<Rightarrow> bool" where
  "ownRoster C md ps =
     (\<exists>cs h. ps = map peerDataOf cs @ h \<and> set cs \<subseteq> C \<and>
        (h = [] \<or> (\<exists>pid m. md = Some m \<and> h = [\<lparr>pd_uuid = pid, pd_metadata = m\<rparr>])))"

text \<open>
  What closing connections and tearing down a peer keep of a host: its id, metadata and
  admission predicate and the number of \<open>Peer\<close> objects; the connection set only
  shrinks, only leave envelopes are written, and the local events are appended, every
  peer list among them being the host's own.
\<close>

definition keeps :: "'a ServerNetwork \<Rightarrow> 'a ServerNetwork \<Rightarrow> bool" where
  "keeps s s' =
     (sn_id s' = sn_id s \<and> sn_metadata s' = sn_metadata s \<and>
      sn_handleConnection s' = sn_handleConnection s \<and>
      length (sn_peerObjs s') = length (sn_peerObjs s) \<and>
      set (sn_connections s') \<subseteq> set (sn_connections s) \<and>
      wireChannels s' \<subseteq> insert ''leave'' (wireChannels s) \<and>
      (\<exists>es. sn_emitted s' = sn_emitted s @ es \<and>
         (\<forall>ps. Peers ps \<in> set es \<longrightarrow>
            ownRoster (set (sn_connections s)) (sn_metadata s) ps)))"

text \<open>The events whose handlers at most close connections and tear down a peer.\<close>

fun tearsDown :: "'a Event \<Rightarrow> bool" where
  "tearsDown CallDisconnect = True"
| "tearsDown (PeerDisconnected r) = True"
| "tearsDown (PeerError r e) = True"
| "tearsDown (PeerConnection r c) = True"
| "tearsDown (ConnClose c) = True"
| "tearsDown (ConnError c) = True"
| "tearsDown _ = False"

text \<open>The connection set holds no connection twice, as a \<open>Set\<close> does not, and every
  connection of the set is open and has its listeners.\<close>

definition connInv :: "'a ServerNetwork \<Rightarrow> bool" where
  "connInv s =
     (distinct (sn_connections s) \<and>
      set (sn_connections s) \<subseteq> set (sn_open s) \<inter> set (sn_listening s))"

section \<open>The replication manager (class Game, src/unnamed/part_002)\<close>

text \<open>
  JavaScript numbers are IEEE 754 doubles. The model embeds them in the reals; the one
  place where the replication logic computes with them, the sum in the staleness test
  of \<open>Game.update\<close>, rounds as the machine does. \<open>Date.now()\<close> is an argument of
  the function that reads it. A snapshot is the object sent on the channel update: the
  uuid, the position, and the other exported properties as an opaque value.
\<close>

record 'p Snapshot =
  sp_uuid :: string
  sp_position :: "real list"
  sp_props :: 'p

text \<open>
  Modelled from the spec: the fields of a proxy, whose class \<open>TankNetwork\<close> is not
  among the sources. The spec (3, 4.4) says a proxy holds the peer's uuid, the timestamp
  of the last snapshot and the last known state, and that applying a snapshot imports it
  and refreshes the timestamp. \<open>en_lastUpdate\<close> is what \<open>getLastUpdate()\<close> returns and
  \<open>en_lastState\<close> the snapshot last applied by \<open>networkUpdate\<close>. The other fields are
  those of any tank of the collection, as far as the replication logic reads them;
  \<open>en_network\<close> is \<open>entity instanceof TankNetwork\<close>.
\<close>

record 'p Entity =
  en_uuid :: string
  en_network :: bool
  en_lastUpdate :: real
  en_lastState :: "'p Snapshot option"
  en_position :: "real list"
  en_inScene :: bool
  en_destroyed :: bool

datatype TmEvent = Add nat | Remove "nat list"

datatype GameError = TypeError

text \<open>
  Tanks are mutable objects that the two maps of \<open>TankManager\<close> share, so the model
  keeps them in a store (\<open>gm_heap\<close>) and the maps hold references. A \<open>Map\<close> is an
  association list in insertion order. \<open>gm_pending\<close> is the local map \<open>tanks\<close> of
  \<open>Game.create\<close>, \<open>gm_outbox\<close> logs what \<open>create\<close> sends on the channel update.
\<close>

record 'p Game =
  gm_heap :: "'p Entity list"
  gm_entries :: "(string \<times> nat) list"
  gm_networkTanks :: "(string \<times> nat) list"
  gm_tmEvents :: "TmEvent list"
  gm_player :: "nat option"
  gm_pending :: "(string \<times> 'p Snapshot) list"
  gm_outbox :: "(string \<times> 'p Snapshot) list"

definition has :: "string \<Rightarrow> (string \<times> 'b) list \<Rightarrow> bool" where
  "has k m = (k \<in> set (map fst m))"

subsection \<open>TankManager\<close>

text \<open>
  \<open>set(uuid, tank)\<close> does nothing when the key is taken; otherwise a proxy is also filed
  in \<open>networkTanks\<close> under its own uuid, the event add is emitted and the entry is
  stored. \<open>add(tank)\<close> is \<open>set(tank.uuid, tank)\<close>.
\<close>

definition tm_set :: "string \<Rightarrow> nat \<Rightarrow> 'p Game \<Rightarrow> 'p Game" where
  "tm_set k r g =
     (if has k (gm_entries g) then g
      else
        (let g1 = (if en_network (gm_heap g ! r)
                   then g\<lparr>gm_networkTanks :=
                            AList.update (en_uuid (gm_heap g ! r)) r (gm_networkTanks g)\<rparr>
                   else g);
             g2 = g1\<lparr>gm_tmEvents := gm_tmEvents g1 @ [Add r]\<rparr>
         in g2\<lparr>gm_entries := AList.update k r (gm_entries g2)\<rparr>))"

definition tm_add :: "nat \<Rightarrow> 'p Game \<Rightarrow> 'p Game" where
  "tm_add r g = tm_set (en_uuid (gm_heap g ! r)) r g"

text \<open>
  \<open>Tank.destroy()\<close> releases the physics bodies and takes the model out of the scene;
  the state keeps two flags of it. \<open>delete(uuid)\<close> removes the key from
  \<open>networkTanks\<close>, destroys the tank filed under it (if any) and emits remove, then
  removes the entry. \<open>remove(tank)\<close> is \<open>delete(tank.uuid)\<close>.
\<close>

definition destroy :: "nat \<Rightarrow> 'p Game \<Rightarrow> 'p Game" where
  "destroy r g = g\<lparr>gm_heap := (gm_heap g)[r := (gm_heap g ! r)\<lparr>en_destroyed := True, en_inScene := False\<rparr>]\<rparr>"

definition tm_delete :: "string \<Rightarrow> 'p Game \<Rightarrow> 'p Game" where
  "tm_delete k g =
     (let g1 = g\<lparr>gm_networkTanks := AList.delete k (gm_networkTanks g)\<rparr>;
          g2 = (case map_of (gm_entries g1) k of
                  Some r \<Rightarrow> (let g' = destroy r g1 in g'\<lparr>gm_tmEvents := gm_tmEvents g' @ [Remove [r]]\<rparr>)
                | None \<Rightarrow> g1)
      in g2\<lparr>gm_entries := AList.delete k (gm_entries g2)\<rparr>)"

definition tm_remove :: "nat \<Rightarrow> 'p Game \<Rightarrow> 'p Game" where
  "tm_remove r g = tm_delete (en_uuid (gm_heap g ! r)) g"

definition getNetwork :: "string \<Rightarrow> 'p Game \<Rightarrow> nat option" where
  "getNetwork k g = map_of (gm_networkTanks g) k"

subsection \<open>Receiving and applying snapshots\<close>

text \<open>The listener of the channel update.\<close>

definition onUpdate :: "'p Snapshot \<Rightarrow> 'p Game \<Rightarrow> 'p Game" where
  "onUpdate d g =
     (case gm_player g of
        None \<Rightarrow> g
      | Some p \<Rightarrow>
          (if sp_uuid d = en_uuid (gm_heap g ! p) then g
           else g\<lparr>gm_pending := AList.update (sp_uuid d) d (gm_pending g)\<rparr>))"

text \<open>
  Modelled from the spec: the constructor of the class \<open>TankNetwork\<close>, which is not
  among the sources. The spec (3) says a proxy is created on the first snapshot for an
  unknown uuid and holds the peer's uuid; the timestamp of a new proxy is set by the
  \<open>networkUpdate\<close> that follows its construction at once.
\<close>

definition newTankNetwork :: "real list \<Rightarrow> string \<Rightarrow> 'p Entity" where
  "newTankNetwork pos k =
     \<lparr>en_uuid = k, en_network = True, en_lastUpdate = 0, en_lastState = None,
      en_position = pos, en_inScene = False, en_destroyed = False\<rparr>"

text \<open>
  Modelled from the spec: \<open>networkUpdate(data)\<close> of the class \<open>TankNetwork\<close>, which
  is not among the sources. The spec (4.4) says applying a snapshot imports it into the
  proxy and refreshes its last-update timestamp; \<open>now\<close> is the clock at the tick.
\<close>

definition networkUpdate :: "real \<Rightarrow> 'p Snapshot \<Rightarrow> nat \<Rightarrow> 'p Game \<Rightarrow> 'p Game" where
  "networkUpdate now d r g =
     g\<lparr>gm_heap := (gm_heap g)[r := (gm_heap g ! r)\<lparr>en_lastState := Some d, en_lastUpdate := now\<rparr>]\<rparr>"

text \<open>\<open>Tank.addToScene()\<close> puts the model into the scene and starts the engine sound.\<close>

definition addToScene :: "nat \<Rightarrow> 'p Game \<Rightarrow> 'p Game" where
  "addToScene r g = g\<lparr>gm_heap := (gm_heap g)[r := (gm_heap g ! r)\<lparr>en_inScene := True\<rparr>]\<rparr>"

text \<open>The body of \<open>tanks.forEach((data, uuid) => ...)\<close> in the 100 ms loop.\<close>

definition applyPending :: "real \<Rightarrow> string \<times> 'p Snapshot \<Rightarrow> 'p Game \<Rightarrow> 'p Game" where
  "applyPending now kd g =
     (case getNetwork (fst kd) g of
        Some r \<Rightarrow> networkUpdate now (snd kd) r g
      | None \<Rightarrow>
          (let r = length (gm_heap g);
               g1 = g\<lparr>gm_heap := gm_heap g @ [newTankNetwork (sp_position (snd kd)) (sp_uuid (snd kd))]\<rparr>;
               g2 = tm_add r g1;
               g3 = addToScene r g2
           in networkUpdate now (snd kd) r g3))"

fun applyAll :: "real \<Rightarrow> (string \<times> 'p Snapshot) list \<Rightarrow> 'p Game \<Rightarrow> 'p Game" where
  "applyAll now [] g = g"
| "applyAll now (kd # kds) g = applyAll now kds (applyPending now kd g)"

text \<open>
  The body of the 100 ms loop. \<open>exported\<close> is the result of \<open>this.properties.export()\<close>
  of the player's tank; \<open>Tank.export\<close> puts the tank's uuid in front of it. Without a
  player the read of \<open>this.player.export\<close> throws.
\<close>

definition tick :: "real \<Rightarrow> 'p Snapshot \<Rightarrow> 'p Game \<Rightarrow> GameError + 'p Game" where
  "tick now exported g =
     (case gm_player g of
        None \<Rightarrow> Inl TypeError
      | Some p \<Rightarrow>
          (let g1 = g\<lparr>gm_outbox := gm_outbox g @
                         [(''update'', exported\<lparr>sp_uuid := en_uuid (gm_heap g ! p)\<rparr>)]\<rparr>;
               g2 = applyAll now (gm_pending g1) g1
           in Inr (g2\<lparr>gm_pending := []\<rparr>)))"

subsection \<open>Staleness eviction\<close>

text \<open>
  The sum in the staleness test is computed in double precision. \<open>fl\<close> rounds a real
  to the nearest double, ties to the even significand: a number of magnitude in
  \<open>[2^e, 2^(e+1))\<close> is rounded to a multiple of \<open>2^(e-52)\<close>, the spacing \<open>ulp\<close> of
  the doubles there; below \<open>2^-1022\<close> the spacing stays \<open>2^-1074\<close>. \<open>fadd\<close> is the
  addition of two doubles. Overflow is left out: the sum of a timestamp and a step
  duration is far from \<open>2^1024\<close>.
\<close>

definition roundHalfEven :: "real \<Rightarrow> int" where
  "roundHalfEven x =
     (let f = \<lfloor>x\<rfloor>; d = x - of_int f
      in if d < 1 / 2 then f else if 1 / 2 < d then f + 1 else if even f then f else f + 1)"

definition ulp :: "real \<Rightarrow> real" where
  "ulp x = 2 powr (of_int (max \<lfloor>log 2 \<bar>x\<bar>\<rfloor> (- 1022)) - 52)"

definition fl :: "real \<Rightarrow> real" where
  "fl x = (if x = 0 then 0 else sgn x * (of_int (roundHalfEven (\<bar>x\<bar> / ulp x)) * ulp x))"

definition fadd :: "real \<Rightarrow> real \<Rightarrow> real" where
  "fadd x y = fl (x + y)"

text \<open>
  \<open>Game.update(_time, delta)\<close>: \<open>this.tanks.forEach\<close> visits the entries the map had when
  the loop began, skipping one that has been deleted in the meantime. The call
  \<open>entity.update(delta)\<close> advances the physics of the tank, which is outside this state.
  \<open>Date.now()\<close> is read anew for every tank: \<open>now k\<close> is the reading at the entry with
  key \<open>k\<close>. The test is
  \<open>entity instanceof TankNetwork && entity.getLastUpdate() + (5000 + delta) < Date.now()\<close>.
\<close>

definition stale :: "real \<Rightarrow> real \<Rightarrow> 'p Entity \<Rightarrow> bool" where
  "stale now delta e = (en_network e \<and> fadd (en_lastUpdate e) (fadd 5000 delta) < now)"

fun updateLoop ::
  "(string \<Rightarrow> real) \<Rightarrow> real \<Rightarrow> (string \<times> nat) list \<Rightarrow> 'p Game \<Rightarrow> 'p Game" where
  "updateLoop now delta [] g = g"
| "updateLoop now delta ((k, r) # rest) g =
     (if has k (gm_entries g)
      then updateLoop now delta rest
             (if stale (now k) delta (gm_heap g ! r) then tm_remove r g else g)
      else updateLoop now delta rest g)"

definition update :: "(string \<Rightarrow> real) \<Rightarrow> real \<Rightarrow> 'p Game \<Rightarrow> 'p Game" where
  "update now delta g = updateLoop now delta (gm_entries g) g"

text \<open>A clock that reads \<open>t\<close> at every entry.\<close>

definition clockAt :: "real \<Rightarrow> string \<Rightarrow> real" where
  "clockAt t k = t"

text \<open>
  What \<open>TankManager.add\<close> maintains: the keys of the map are distinct, every entry
  refers to an object of the store, and its key is the uuid of that object.
\<close>

definition wfTanks :: "'p Game \<Rightarrow> bool" where
  "wfTanks g =
     (distinct (map fst (gm_entries g)) \<and>
      list_all (\<lambda>kr. snd kr < length (gm_heap g) \<and> en_uuid (gm_heap g ! snd kr) = fst kr)
        (gm_entries g))"

text \<open>
  What \<open>Game\<close> maintains between its callbacks: the tank collection is well formed;
  \<open>networkTanks\<close> holds exactly the entries whose tank is a proxy; the pending buffer has
  one entry for a uuid, filed under the uuid of its snapshot; the player's tank, once
  there is one, is an object of the store, no buffered uuid is the player's (the
  listener of the channel update drops those), and the player's tank is the only tank
  of the collection that is not a proxy.
\<close>

definition wfGame :: "'p Game \<Rightarrow> bool" where
  "wfGame g =
     (wfTanks g \<and>
      gm_networkTanks g = filter (\<lambda>kr. en_network (gm_heap g ! snd kr)) (gm_entries g) \<and>
      distinct (map fst (gm_pending g)) \<and>
      list_all (\<lambda>kd. sp_uuid (snd kd) = fst kd) (gm_pending g) \<and>
      (case gm_player g of
         None \<Rightarrow> True
       | Some p \<Rightarrow> p < length (gm_heap g) \<and>
                   list_all (\<lambda>kd. fst kd \<noteq> en_uuid (gm_heap g ! p)) (gm_pending g)) \<and>
      list_all (\<lambda>kr. en_network (gm_heap g ! snd kr) \<or> gm_player g = Some (snd kr))
        (gm_entries g))"

text \<open>The proxy object that \<open>applyPending\<close> creates for a snapshot and what
  \<open>addToScene\<close> and \<open>networkUpdate\<close> have made of it.\<close>

definition freshProxy :: "real \<Rightarrow> 'p Snapshot \<Rightarrow> 'p Entity" where
  "freshProxy now d =
     \<lparr>en_uuid = sp_uuid d, en_network = True, en_lastUpdate = now, en_lastState = Some d,
      en_position = sp_position d, en_inScene = True, en_destroyed = False\<rparr>"

text \<open>
  What it means that the tick which began in \<open>g0\<close> has applied the buffered entry
  \<open>kd\<close> in \<open>g\<close>: a proxy is filed under the uuid in \<open>networkTanks\<close> and in the tank
  collection, it carries that uuid, the snapshot is its last state and \<open>now\<close> its
  timestamp; it is the proxy that \<open>g0\<close> had for the uuid if there was one, and an object
  created during the tick otherwise.
\<close>

definition applied :: "real \<Rightarrow> 'p Game \<Rightarrow> 'p Game \<Rightarrow> string \<times> 'p Snapshot \<Rightarrow> bool" where
  "applied now g0 g kd =
     (case getNetwork (fst kd) g of
        None \<Rightarrow> False
      | Some r \<Rightarrow>
          map_of (gm_entries g) (fst kd) = Some r \<and> r < length (gm_heap g) \<and>
          en_network (gm_heap g ! r) \<and> en_uuid (gm_heap g ! r) = fst kd \<and>
          en_lastState (gm_heap g ! r) = Some (snd kd) \<and> en_lastUpdate (gm_heap g ! r) = now \<and>
          (case getNetwork (fst kd) g0 of
             Some r0 \<Rightarrow> r = r0
           | None \<Rightarrow> length (gm_heap g0) \<le> r))"

text \<open>
  Three notions for reasoning about the tick. \<open>netInv\<close> is the part of \<open>wfGame\<close> about
  the two maps; \<open>proxyOnly k\<close> says that whatever the tank collection files under \<open>k\<close>
  is a proxy; \<open>frame K g g'\<close> says what a stretch of the tick that handled the uuids in
  \<open>K\<close> has left alone on the way from \<open>g\<close> to \<open>g'\<close>.
\<close>

definition netInv :: "'p Game \<Rightarrow> bool" where
  "netInv g = (wfTanks g \<and>
      gm_networkTanks g = filter (\<lambda>kr. en_network (gm_heap g ! snd kr)) (gm_entries g))"

definition proxyOnly :: "string \<Rightarrow> 'p Game \<Rightarrow> bool" where
  "proxyOnly k g = (\<forall>r. (k, r) \<in> set (gm_entries g) \<longrightarrow> en_network (gm_heap g ! r))"

definition frame :: "string set \<Rightarrow> 'p Game \<Rightarrow> 'p Game \<Rightarrow> bool" where
  "frame K g g' =
     (length (gm_heap g) \<le> length (gm_heap g') \<and>
      (\<forall>k. k \<notin> K \<longrightarrow> getNetwork k g' = getNetwork k g \<and>
                      map_of (gm_entries g') k = map_of (gm_entries g) k) \<and>
      (\<forall>r. r < length (gm_heap g) \<longrightarrow>
           en_network (gm_heap g' ! r) = en_network (gm_heap g ! r) \<and>
           en_uuid (gm_heap g' ! r) = en_uuid (gm_heap g ! r) \<and>
           (en_uuid (gm_heap g ! r) \<notin> K \<longrightarrow> gm_heap g' ! r = gm_heap g ! r)) \<and>
      (\<forall>kr. kr \<in> set (gm_entries g') \<longrightarrow>
           kr \<in> set (gm_entries g) \<or> en_network (gm_heap g' ! snd kr)) \<and>
      gm_player g' = gm_player g \<and> gm_pending g' = gm_pending g \<and> gm_outbox g' = gm_outbox g)"

section \<open>The tank (game/models/Tank.ts and class TankPlayer, src/unnamed/part_001)\<close>

datatype Effect =
    Died
  | Changed
  | ShootSound
  | ExplosionMade
  | BulletCreated bool
  | EventSent string string

text \<open>
  The fields of a tank that \<open>hit\<close> and \<open>shoot\<close> read and write. \<open>tk_effects\<close> logs, in
  order, the calls into the physics, audio and event collaborators: \<open>die()\<close>, the change
  event of the property bag, the shot sound, \<open>Explosion.make\<close>, \<open>createBullet\<close> (the
  flag tells whether the player's collision listener was attached) and
  \<open>game.events.send(channel, uuid)\<close>. \<open>tk_player\<close> tells whether the object is a
  \<open>TankPlayer\<close>.
\<close>

record Tank =
  tk_uuid :: string
  tk_player :: bool
  tk_health :: real
  tk_lastShot :: int
  tk_effects :: "Effect list"

definition effect :: "Effect \<Rightarrow> Tank \<Rightarrow> Tank" where
  "effect e t = t\<lparr>tk_effects := tk_effects t @ [e]\<rparr>"

subsection \<open>The health property\<close>

text \<open>The parts of a property definition that the health property has or could have.\<close>

record ('s, 'v) PropertyDefinition =
  pdef_default :: 'v
  pdef_set :: "('v \<Rightarrow> 'v) option"
  pdef_onChange :: "('v \<Rightarrow> 'v \<Rightarrow> 's \<Rightarrow> 's) option"

text \<open>
  Modelled from the spec: the write path of a property (\<open>... .value = x\<close>) of the class
  \<open>Properties\<close>, which is not among the sources. The spec (4.3) says a write first
  applies the definition's \<open>set\<close> transform if present, compares to the previous value,
  and only if changed commits the new value, then invokes \<open>onChange(new, old)\<close> followed
  by the bag-level change event. \<open>rd\<close> and \<open>wr\<close> are the bag's storage of the property,
  \<open>chg\<close> the change event.
\<close>

definition writeProperty ::
  "('s, 'v) PropertyDefinition \<Rightarrow> ('s \<Rightarrow> 'v) \<Rightarrow> ('v \<Rightarrow> 's \<Rightarrow> 's) \<Rightarrow> ('s \<Rightarrow> 's) \<Rightarrow> 'v \<Rightarrow> 's \<Rightarrow> 's" where
  "writeProperty def rd wr chg x s =
     (let v = (case pdef_set def of None \<Rightarrow> x | Some f \<Rightarrow> f x);
          old = rd s
      in if v = old then s
         else chg ((case pdef_onChange def of None \<Rightarrow> (\<lambda>s'. s') | Some h \<Rightarrow> h v old) (wr v s)))"

text \<open>\<open>die()\<close> throws the chassis about and releases the turret and the canon; the
  state logs the call.\<close>

definition die :: "Tank \<Rightarrow> Tank" where
  "die t = effect Died t"

text \<open>The definition passed to \<open>addProperty('health', ...)\<close> in the constructor.\<close>

definition healthDefinition :: "(Tank, real) PropertyDefinition" where
  "healthDefinition =
     \<lparr>pdef_default = 100,
      pdef_set = Some (\<lambda>value. min (max value 0) 100),
      pdef_onChange = Some (\<lambda>health oldHealth t.
                         if health \<le> 0 \<and> oldHealth > 0 then die t else t)\<rparr>"

text \<open>The setter \<open>health\<close>, \<open>hit(damage)\<close>, which writes the health less the damage,
  and \<open>isDead()\<close>.\<close>

definition setHealth :: "real \<Rightarrow> Tank \<Rightarrow> Tank" where
  "setHealth x t =
     writeProperty healthDefinition tk_health (\<lambda>v t'. t'\<lparr>tk_health := v\<rparr>) (effect Changed) x t"

definition hit :: "real \<Rightarrow> Tank \<Rightarrow> Tank" where
  "hit damage t = setHealth (tk_health t - damage) t"

definition isDead :: "Tank \<Rightarrow> bool" where
  "isDead t = (tk_health t \<le> 0)"

subsection \<open>Shooting\<close>

text \<open>
  \<open>Tank.shoot()\<close> reads the clock twice: \<open>now\<close> in the guard and \<open>now'\<close> for
  \<open>this.lastShot = Date.now()\<close>. \<open>createBullet\<close> is dispatched on the class of the tank;
  both versions make one bullet.
\<close>

definition createBullet :: "Tank \<Rightarrow> Tank" where
  "createBullet t = effect (BulletCreated (tk_player t)) t"

definition shoot :: "int \<Rightarrow> int \<Rightarrow> Tank \<Rightarrow> bool \<times> Tank" where
  "shoot now now' t =
     (if tk_lastShot t + 750 > now \<or> isDead t then (False, t)
      else (True, createBullet (effect ExplosionMade ((effect ShootSound t)\<lparr>tk_lastShot := now'\<rparr>))))"

text \<open>\<open>TankPlayer.shoot()\<close>.\<close>

definition playerShoot :: "int \<Rightarrow> int \<Rightarrow> Tank \<Rightarrow> bool \<times> Tank" where
  "playerShoot now now' t =
     (let (hadShoot, t') = shoot now now' t
      in if hadShoot then (hadShoot, effect (EventSent ''tank:shoot'' (tk_uuid t')) t')
         else (hadShoot, t'))"

text \<open>Counting in the log: bullets made, tank:shoot events sent, calls of \<open>die\<close>.\<close>

definition bullets :: "Tank \<Rightarrow> nat" where
  "bullets t = length (filter (\<lambda>e. case e of BulletCreated b \<Rightarrow> True | _ \<Rightarrow> False) (tk_effects t))"

definition shootEvents :: "Tank \<Rightarrow> nat" where
  "shootEvents t = count_list (tk_effects t) (EventSent ''tank:shoot'' (tk_uuid t))"

definition deaths :: "Tank \<Rightarrow> nat" where
  "deaths t = count_list (tk_effects t) Died"

section \<open>The chat (component ChatUi, src/unnamed/part_000)\<close>

text \<open>
  A JavaScript string is a sequence of UTF-16 code units; \<open>trim\<close> and \<open>slice\<close> work on
  code units. Dates are milliseconds since the epoch. \<open>cu_input\<close> is the value of the
  input element, \<open>cu_lastMessageTime\<close> the ref of that name, \<open>cu_messages\<close> the React
  state, and \<open>cu_sent\<close> logs the payloads handed to \<open>network.channel('chat').send\<close>.
\<close>

type_synonym jsString = "16 word list"

text \<open>The code units of a literal whose characters are below U+0100.\<close>

definition units :: "string \<Rightarrow> jsString" where
  "units str = map (\<lambda>c. of_nat (of_char c)) str"

record ChatMessage =
  cm_from :: PeerData
  cm_message :: jsString
  cm_date :: int

record ChatUi =
  cu_messages :: "ChatMessage list"
  cu_lastMessageTime :: int
  cu_input :: jsString
  cu_sent :: "(jsString \<times> int) list"

text \<open>
  \<open>String.prototype.trim\<close> removes white space and line terminators from both ends:
  the code units U+0009 to U+000D, U+0020, U+00A0, U+1680, U+2000 to U+200A, U+2028,
  U+2029, U+202F, U+205F, U+3000 and U+FEFF.
\<close>

definition isSpace :: "16 word \<Rightarrow> bool" where
  "isSpace c =
     (c \<in> set [0x0009, 0x000A, 0x000B, 0x000C, 0x000D, 0x0020, 0x00A0, 0x1680,
               0x2000, 0x2001, 0x2002, 0x2003, 0x2004, 0x2005, 0x2006, 0x2007, 0x2008,
               0x2009, 0x200A, 0x2028, 0x2029, 0x202F, 0x205F, 0x3000, 0xFEFF])"

definition trim :: "jsString \<Rightarrow> jsString" where
  "trim str = rev (dropWhile isSpace (rev (dropWhile isSpace str)))"

text \<open>\<open>addMessage\<close>: append, sort with the comparator \<open>b.date - a.date\<close> (newest
  first, stable), keep \<open>slice(-50)\<close>.\<close>

definition addMessage :: "ChatMessage \<Rightarrow> ChatMessage list \<Rightarrow> ChatMessage list" where
  "addMessage m ms =
     (let sorted = sort_key (\<lambda>x. - cm_date x) (ms @ [m])
      in drop (length sorted - 50) sorted)"

text \<open>
  \<open>send(message)\<close>: \<open>peerData\<close> is the result of \<open>network?.getPeerData()\<close>, \<open>date\<close> the
  value of \<open>new Date()\<close> and \<open>now'\<close> the \<open>Date.now()\<close> stored in the ref.
\<close>

definition chatSend :: "PeerData option \<Rightarrow> int \<Rightarrow> int \<Rightarrow> jsString \<Rightarrow> ChatUi \<Rightarrow> ChatUi" where
  "chatSend peerData date now' message s =
     (case peerData of
        None \<Rightarrow> s
      | Some pd \<Rightarrow>
          (let message' = take 100 (trim message)
           in s\<lparr>cu_sent := cu_sent s @ [(message', date)],
                cu_messages := addMessage \<lparr>cm_from = pd, cm_message = message', cm_date = date\<rparr>
                                 (cu_messages s),
                cu_lastMessageTime := now'\<rparr>))"

text \<open>\<open>handleSubmit(event)\<close>: \<open>now\<close> is the \<open>Date.now()\<close> of the guard.\<close>

definition handleSubmit :: "PeerData option \<Rightarrow> int \<Rightarrow> int \<Rightarrow> int \<Rightarrow> ChatUi \<Rightarrow> ChatUi" where
  "handleSubmit peerData now date now' s =
     (if now - cu_lastMessageTime s < 600 then s
      else if cu_input s \<noteq> []
           then (chatSend peerData date now' (cu_input s) s)\<lparr>cu_input := []\<rparr>
           else s)"

section \<open>A sample session\<close>

text \<open>
  A host that connected, opened, and accepted two clients, Bob first and Alice second.
  The states are reached by runs from a new \<open>ServerNetwork\<close>.
\<close>

definition mdHost :: Metadata where
  "mdHost = \<lparr>md_name = ''Host'', md_tank = ''heig''\<rparr>"

definition alice :: DataConnection where
  "alice = \<lparr>dc_ref = 1, dc_peer = ''alice'',
            dc_metadata = \<lparr>md_name = ''Alice'', md_tank = ''heig''\<rparr>\<rparr>"

definition bob :: DataConnection where
  "bob = \<lparr>dc_ref = 2, dc_peer = ''bob'',
          dc_metadata = \<lparr>md_name = ''Bob'', md_tank = ''heig''\<rparr>\<rparr>"

definition hostWithBob :: "nat ServerNetwork" where
  "hostWithBob =
     run [CallConnect mdHost, PeerOpen 0, PeerConnection 0 bob, ConnOpen bob,
          PeerConnection 0 alice]
       (newServerNetwork ''host'')"

definition hostWithBoth :: "nat ServerNetwork" where
  "hostWithBoth = step (ConnOpen alice) hostWithBob"

definition chatEnvelope :: "nat Message" where
  "chatEnvelope = \<lparr>msg_channel = ''chat'', msg_data = App 42, msg_peer = Some ''mallory''\<rparr>"

definition peersEnvelope :: "nat Message" where
  "peersEnvelope = \<lparr>msg_channel = ''peers'', msg_data = App 7, msg_peer = Some ''alice''\<rparr>"

definition freshHost :: "nat ServerNetwork" where
  "freshHost = newServerNetwork ''host''"

definition sampleRun :: "nat Event list" where
  "sampleRun =
     [CallConnect mdHost, PeerOpen 0, PeerConnection 0 bob, ConnOpen bob,
      PeerConnection 0 alice, ConnOpen alice, ConnData alice chatEnvelope, ConnClose bob]"

definition peersRun :: "nat Event list" where
  "peersRun =
     [CallConnect mdHost, PeerOpen 0, PeerConnection 0 bob, ConnOpen bob,
      PeerConnection 0 alice, ConnOpen alice, ConnData alice peersEnvelope]"

text \<open>The host's own peer data while its peer is open, and after the transport has
  reset the id of the peer. The leave envelope for Alice on the host that serves both.\<close>

definition hostPeer :: PeerData where
  "hostPeer = \<lparr>pd_uuid = Some ''host'', pd_metadata = mdHost\<rparr>"

definition hostGone :: PeerData where
  "hostGone = \<lparr>pd_uuid = None, pd_metadata = mdHost\<rparr>"

definition leaveAlice :: "nat Message" where
  "leaveAlice =
     \<lparr>msg_channel = ''leave'', msg_data = Roster (peerDataOf alice) [peerDataOf bob, hostPeer],
      msg_peer = Some ''host''\<rparr>"

text \<open>A game with the player's tank and one proxy whose last snapshot came at time 0,
  and the same game with that snapshot at a timestamp of the year 2023.\<close>

definition sampleGame :: "unit Game" where
  "sampleGame =
     \<lparr>gm_heap =
        [\<lparr>en_uuid = ''me'', en_network = False, en_lastUpdate = 0, en_lastState = None,
          en_position = [0, 1, 0], en_inScene = True, en_destroyed = False\<rparr>,
         \<lparr>en_uuid = ''bob'', en_network = True, en_lastUpdate = 0, en_lastState = None,
          en_position = [5, 1, 5], en_inScene = True, en_destroyed = False\<rparr>],
      gm_entries = [(''me'', 0), (''bob'', 1)],
      gm_networkTanks = [(''bob'', 1)],
      gm_tmEvents = [Add 0, Add 1],
      gm_player = Some 0,
      gm_pending = [],
      gm_outbox = []\<rparr>"

definition lateGame :: "unit Game" where
  "lateGame =
     sampleGame\<lparr>gm_heap :=
       [gm_heap sampleGame ! 0, (gm_heap sampleGame ! 1)\<lparr>en_lastUpdate := 1700000000000\<rparr>]\<rparr>"

text \<open>Snapshots arriving at that game: two from Bob, one echoing the player's own
  uuid, one from Carol, who has no proxy yet.\<close>

definition snapBob1 :: "unit Snapshot" where
  "snapBob1 = \<lparr>sp_uuid = ''bob'', sp_position = [5, 1, 5], sp_props = ()\<rparr>"

definition snapBob2 :: "unit Snapshot" where
  "snapBob2 = \<lparr>sp_uuid = ''bob'', sp_position = [6, 1, 5], sp_props = ()\<rparr>"

definition snapMe :: "unit Snapshot" where
  "snapMe = \<lparr>sp_uuid = ''me'', sp_position = [0, 1, 0], sp_props = ()\<rparr>"

definition snapCarol :: "unit Snapshot" where
  "snapCarol = \<lparr>sp_uuid = ''carol'', sp_position = [9, 1, 9], sp_props = ()\<rparr>"

definition sampleBuffered :: "unit Game" where
  "sampleBuffered = onUpdate snapCarol (onUpdate snapBob2 (onUpdate snapMe (onUpdate snapBob1 sampleGame)))"

definition sampleTank :: Tank where
  "sampleTank =
     \<lparr>tk_uuid = ''me'', tk_player = True, tk_health = 100, tk_lastShot = 0, tk_effects = []\<rparr>"

text \<open>A chat with an empty list, whose input holds hello between a space and a
  no-break space, and a chat whose list holds the 50 messages dated 50 down to 1.\<close>

definition samplePeer :: PeerData where
  "samplePeer = \<lparr>pd_uuid = Some ''me'', pd_metadata = mdHost\<rparr>"

definition sampleChat :: ChatUi where
  "sampleChat =
     \<lparr>cu_messages = [], cu_lastMessageTime = 0, cu_input = 0x0020 # units ''hello'' @ [0x00A0],
      cu_sent = []\<rparr>"

definition oldMessage :: "nat \<Rightarrow> ChatMessage" where
  "oldMessage d = \<lparr>cm_from = samplePeer, cm_message = units ''old'', cm_date = int d\<rparr>"

definition fullChat :: ChatUi where
  "fullChat =
     \<lparr>cu_messages = map oldMessage (rev [1..<51]), cu_lastMessageTime = 0,
      cu_input = units ''hello'', cu_sent = []\<rparr>"

section \<open>Properties of the Host\<close>

subsection \<open>Closing a connection\<close>

lemma set_delete_absent: "x \<notin> set xs \<Longrightarrow> set_delete x xs = xs"
  by (auto simp: set_delete_def filter_id_conv)

lemma set_add_present: "x \<in> set xs \<Longrightarrow> set_add x xs = xs"
  by (simp add: set_add_def)

lemma set_set_add [simp]: "set (set_add x xs) = insert x (set xs)"
  by (auto simp: set_add_def)

lemma set_set_delete [simp]: "set (set_delete x xs) = set xs - {x}"
  by (auto simp: set_delete_def)

lemma removeConnection_afterClose: "removeConnection c s = afterClose c (connectionClose c s)"
  by (subst removeConnection.simps) (simp add: afterClose_def Let_def)

lemma connectionClose_eq:
  "connectionClose c s =
     (if c \<in> set (sn_open s) \<and> c \<in> set (sn_listening s)
      then afterClose c (markClosed c s) else markClosed c s)"
proof (cases "c \<in> set (sn_open s)")
  case False
  then show ?thesis
    by (subst connectionClose.simps) (simp add: markClosed_def set_delete_absent)
next
  case True
  let ?s1 = "markClosed c s"
  have n: "c \<notin> set (sn_open ?s1)" by (simp add: markClosed_def)
  have "connectionClose c ?s1 = ?s1"
    using n by (subst connectionClose.simps) (simp add: markClosed_def set_add_present)
  then have "removeConnection c ?s1 = afterClose c ?s1"
    by (simp add: removeConnection_afterClose)
  then show ?thesis using True
    by (subst connectionClose.simps) (simp add: Let_def markClosed_def)
qed

lemma removeConnection_eq:
  "removeConnection c s =
     (if c \<in> set (sn_open s) \<and> c \<in> set (sn_listening s)
      then afterClose c (afterClose c (markClosed c s)) else afterClose c (markClosed c s))"
  by (simp add: removeConnection_afterClose connectionClose_eq)

subsection \<open>Field lemmas\<close>

lemma emit_fields [simp]:
  "sn_wire (emit ev s) = sn_wire s"
  "sn_peer (emit ev s) = sn_peer s"
  "sn_metadata (emit ev s) = sn_metadata s"
  "sn_connections (emit ev s) = sn_connections s"
  "sn_peerObjs (emit ev s) = sn_peerObjs s"
  "sn_id (emit ev s) = sn_id s"
  "sn_handleConnection (emit ev s) = sn_handleConnection s"
  "sn_open (emit ev s) = sn_open s"
  "sn_closed (emit ev s) = sn_closed s"
  "sn_listening (emit ev s) = sn_listening s"
  "sn_awaiting (emit ev s) = sn_awaiting s"
  "sn_emitted (emit ev s) = sn_emitted s @ [ev]"
  by (simp_all add: emit_def)

lemma updPeerObj_fields [simp]:
  "sn_wire (updPeerObj r f s) = sn_wire s"
  "sn_peer (updPeerObj r f s) = sn_peer s"
  "sn_metadata (updPeerObj r f s) = sn_metadata s"
  "sn_connections (updPeerObj r f s) = sn_connections s"
  "sn_emitted (updPeerObj r f s) = sn_emitted s"
  "sn_id (updPeerObj r f s) = sn_id s"
  "sn_handleConnection (updPeerObj r f s) = sn_handleConnection s"
  "sn_open (updPeerObj r f s) = sn_open s"
  "sn_closed (updPeerObj r f s) = sn_closed s"
  "sn_listening (updPeerObj r f s) = sn_listening s"
  "sn_awaiting (updPeerObj r f s) = sn_awaiting s"
  "length (sn_peerObjs (updPeerObj r f s)) = length (sn_peerObjs s)"
  by (simp_all add: updPeerObj_def)

lemma broadcast_fields [simp]:
  "sn_peer (broadcast m x s) = sn_peer s"
  "sn_metadata (broadcast m x s) = sn_metadata s"
  "sn_connections (broadcast m x s) = sn_connections s"
  "sn_emitted (broadcast m x s) = sn_emitted s"
  "sn_peerObjs (broadcast m x s) = sn_peerObjs s"
  "sn_id (broadcast m x s) = sn_id s"
  "sn_handleConnection (broadcast m x s) = sn_handleConnection s"
  "sn_open (broadcast m x s) = sn_open s"
  "sn_closed (broadcast m x s) = sn_closed s"
  "sn_listening (broadcast m x s) = sn_listening s"
  "sn_awaiting (broadcast m x s) = sn_awaiting s"
  by (simp_all add: broadcast_def)

lemma send_fields [simp]:
  "sn_peer (send ch d s) = sn_peer s"
  "sn_metadata (send ch d s) = sn_metadata s"
  "sn_connections (send ch d s) = sn_connections s"
  "sn_emitted (send ch d s) = sn_emitted s"
  "sn_peerObjs (send ch d s) = sn_peerObjs s"
  "sn_id (send ch d s) = sn_id s"
  "sn_handleConnection (send ch d s) = sn_handleConnection s"
  "sn_open (send ch d s) = sn_open s"
  "sn_closed (send ch d s) = sn_closed s"
  "sn_listening (send ch d s) = sn_listening s"
  "sn_awaiting (send ch d s) = sn_awaiting s"
  by (simp_all add: send_def split: option.splits)

lemma thisPeer_cong:
  "sn_peer s' = sn_peer s \<Longrightarrow> sn_peerObjs s' = sn_peerObjs s \<Longrightarrow> thisPeer s' = thisPeer s"
  by (simp add: thisPeer_def cong: option.case_cong if_cong)

lemma getPeerData_cong:
  "sn_peer s' = sn_peer s \<Longrightarrow> sn_peerObjs s' = sn_peerObjs s \<Longrightarrow>
   sn_metadata s' = sn_metadata s \<Longrightarrow> getPeerData s' = getPeerData s"
  by (simp add: getPeerData_def thisPeer_cong [of s' s] cong: option.case_cong)

lemma connectedPeers_cong:
  "sn_connections s' = sn_connections s \<Longrightarrow> sn_peer s' = sn_peer s \<Longrightarrow>
   sn_peerObjs s' = sn_peerObjs s \<Longrightarrow> sn_metadata s' = sn_metadata s \<Longrightarrow>
   connectedPeers s' = connectedPeers s"
  by (simp add: connectedPeers_def getPeerData_cong [of s' s] cong: option.case_cong)

lemma markClosed_fields [simp]:
  "sn_wire (markClosed c s) = sn_wire s"
  "sn_peer (markClosed c s) = sn_peer s"
  "sn_metadata (markClosed c s) = sn_metadata s"
  "sn_connections (markClosed c s) = sn_connections s"
  "sn_emitted (markClosed c s) = sn_emitted s"
  "sn_peerObjs (markClosed c s) = sn_peerObjs s"
  "sn_id (markClosed c s) = sn_id s"
  "sn_handleConnection (markClosed c s) = sn_handleConnection s"
  "sn_listening (markClosed c s) = sn_listening s"
  "sn_awaiting (markClosed c s) = sn_awaiting s"
  "sn_open (markClosed c s) = set_delete c (sn_open s)"
  "sn_closed (markClosed c s) = set_add c (sn_closed s)"
  by (simp_all add: markClosed_def)

lemma afterClose_fields [simp]:
  "sn_peer (afterClose c s) = sn_peer s"
  "sn_metadata (afterClose c s) = sn_metadata s"
  "sn_peerObjs (afterClose c s) = sn_peerObjs s"
  "sn_id (afterClose c s) = sn_id s"
  "sn_handleConnection (afterClose c s) = sn_handleConnection s"
  "sn_open (afterClose c s) = sn_open s"
  "sn_closed (afterClose c s) = sn_closed s"
  "sn_connections (afterClose c s) = set_delete c (sn_connections s)"
  "sn_listening (afterClose c s) = set_delete c (sn_listening s)"
  "sn_awaiting (afterClose c s) = set_delete c (sn_awaiting s)"
  by (simp_all add: afterClose_def Let_def channel_send_def)

lemma thisPeer_afterClose [simp]: "thisPeer (afterClose c s) = thisPeer s"
  by (rule thisPeer_cong) simp_all

lemma getPeerData_afterClose [simp]: "getPeerData (afterClose c s) = getPeerData s"
  by (rule getPeerData_cong) simp_all

lemma connectedPeers_afterClose:
  "connectedPeers (afterClose c s) =
     map peerDataOf (set_delete c (sn_connections s)) @
     (case getPeerData s of Some p \<Rightarrow> [p] | None \<Rightarrow> [])"
  by (simp add: connectedPeers_def)

lemma emitted_afterClose:
  "sn_emitted (afterClose c s) =
     sn_emitted s @ [Peers (connectedPeers (afterClose c s)), Leave (md_name (dc_metadata c))]"
proof -
  let ?s3 = "s\<lparr>sn_listening := set_delete c (sn_listening s),
                sn_awaiting := set_delete c (sn_awaiting s),
                sn_connections := set_delete c (sn_connections s)\<rparr>"
  have "connectedPeers ?s3 = connectedPeers (afterClose c s)"
    by (rule connectedPeers_cong) simp_all
  then show ?thesis
    by (simp add: afterClose_def Let_def channel_send_def)
qed

lemma wire_afterClose:
  "sn_wire (afterClose c s) =
     sn_wire s @
     (case thisPeer s of
        None \<Rightarrow> []
      | Some p \<Rightarrow>
          map (\<lambda>c'. (c', \<lparr>msg_channel = ''leave'',
                         msg_data = Roster (peerDataOf c) (connectedPeers (afterClose c s)),
                         msg_peer = pe_id p\<rparr>))
            (set_delete c (sn_connections s)))"
proof -
  let ?s3 = "s\<lparr>sn_listening := set_delete c (sn_listening s),
                sn_awaiting := set_delete c (sn_awaiting s),
                sn_connections := set_delete c (sn_connections s)\<rparr>"
  let ?s5 = "emit (Leave (md_name (dc_metadata c))) (emit (Peers (connectedPeers ?s3)) ?s3)"
  have cp: "connectedPeers ?s3 = connectedPeers (afterClose c s)"
    by (rule connectedPeers_cong) simp_all
  have tp: "thisPeer ?s5 = thisPeer s"
    by (rule thisPeer_cong) simp_all
  have eq: "afterClose c s = send ''leave'' (Roster (peerDataOf c) (connectedPeers ?s3)) ?s5"
    by (simp add: afterClose_def Let_def channel_send_def)
  have w: "sn_wire (send ''leave'' D ?s5) =
      sn_wire s @
      (case thisPeer s of
         None \<Rightarrow> []
       | Some p \<Rightarrow>
           map (\<lambda>c'. (c', \<lparr>msg_channel = ''leave'', msg_data = D, msg_peer = pe_id p\<rparr>))
             (set_delete c (sn_connections s)))" for D
    by (simp add: send_def tp broadcast_def split: option.splits)
  show ?thesis
    apply (subst cp [symmetric])
    apply (subst eq)
    apply (rule w)
    done
qed

subsection \<open>What a teardown keeps\<close>

lemma ownRoster_mono: "ownRoster C md ps \<Longrightarrow> C \<subseteq> D \<Longrightarrow> ownRoster D md ps"
  unfolding ownRoster_def by blast

lemma ownRoster_connectedPeers:
  "set (sn_connections s) \<subseteq> C \<Longrightarrow> ownRoster C (sn_metadata s) (connectedPeers s)"
  unfolding ownRoster_def connectedPeers_def getPeerData_def
  by (rule exI [of _ "sn_connections s"]) (auto split: option.splits)

lemma keeps_refl: "keeps s s"
  by (auto simp: keeps_def)

lemma keeps_trans:
  assumes "keeps s s'" and "keeps s' s''"
  shows "keeps s s''"
proof -
  from assms(1) obtain es1 where
    e1: "sn_emitted s' = sn_emitted s @ es1"
        "\<forall>ps. Peers ps \<in> set es1 \<longrightarrow> ownRoster (set (sn_connections s)) (sn_metadata s) ps"
    unfolding keeps_def by blast
  from assms(2) obtain es2 where
    e2: "sn_emitted s'' = sn_emitted s' @ es2"
        "\<forall>ps. Peers ps \<in> set es2 \<longrightarrow> ownRoster (set (sn_connections s')) (sn_metadata s') ps"
    unfolding keeps_def by blast
  have sub: "set (sn_connections s') \<subseteq> set (sn_connections s)" and md: "sn_metadata s' = sn_metadata s"
    using assms(1) by (simp_all add: keeps_def)
  have "\<forall>ps. Peers ps \<in> set (es1 @ es2) \<longrightarrow> ownRoster (set (sn_connections s)) (sn_metadata s) ps"
    using e1(2) e2(2) ownRoster_mono [OF _ sub] md by auto
  moreover have "sn_emitted s'' = sn_emitted s @ (es1 @ es2)"
    using e1(1) e2(1) by simp
  ultimately have "\<exists>es. sn_emitted s'' = sn_emitted s @ es \<and>
         (\<forall>ps. Peers ps \<in> set es \<longrightarrow> ownRoster (set (sn_connections s)) (sn_metadata s) ps)"
    by blast
  moreover have "wireChannels s'' \<subseteq> insert ''leave'' (wireChannels s)"
    using assms by (auto simp: keeps_def)
  moreover have "set (sn_connections s'') \<subseteq> set (sn_connections s)"
    using assms by (auto simp: keeps_def)
  ultimately show ?thesis
    using assms by (simp add: keeps_def)
qed

lemma keeps_same:
  assumes "sn_id s' = sn_id s" and "sn_metadata s' = sn_metadata s"
      and "sn_handleConnection s' = sn_handleConnection s"
      and "length (sn_peerObjs s') = length (sn_peerObjs s)"
      and "set (sn_connections s') \<subseteq> set (sn_connections s)"
      and "sn_wire s' = sn_wire s" and "sn_emitted s' = sn_emitted s"
  shows "keeps s s'"
  using assms by (auto simp: keeps_def wireChannels_def)

lemma keeps_updPeerObj: "keeps s (updPeerObj r f s)"
  by (rule keeps_same) simp_all

lemma keeps_markClosed: "keeps s (markClosed c s)"
  by (rule keeps_same) simp_all

lemma keeps_reset: "keeps s (s\<lparr>sn_connections := [], sn_peer := None\<rparr>)"
  by (rule keeps_same) simp_all

lemma keeps_emit_Status: "keeps s (emit (Status st) s)"
  by (auto simp: keeps_def wireChannels_def)

lemma keeps_afterClose: "keeps s (afterClose c s)"
proof -
  have "ownRoster (set (sn_connections s)) (sn_metadata s) (connectedPeers (afterClose c s))"
    using ownRoster_connectedPeers [of "afterClose c s" "set (sn_connections s)"] by auto
  moreover have "wireChannels (afterClose c s) \<subseteq> insert ''leave'' (wireChannels s)"
    by (auto simp: wireChannels_def wire_afterClose split: option.splits)
  ultimately show ?thesis
    by (simp add: keeps_def emitted_afterClose)
qed

lemma keeps_connectionClose: "keeps s (connectionClose c s)"
  unfolding connectionClose_eq
  by (auto intro: keeps_markClosed keeps_trans [OF keeps_markClosed keeps_afterClose])

lemma keeps_removeConnection: "keeps s (removeConnection c s)"
  unfolding removeConnection_afterClose
  by (rule keeps_trans [OF keeps_connectionClose keeps_afterClose])

lemma keeps_foldl_close: "keeps s (foldl (\<lambda>s' c. connectionClose c s') s cs)"
proof (induction cs arbitrary: s)
  case Nil
  show ?case by (simp add: keeps_refl)
next
  case (Cons c cs)
  show ?case
    using keeps_trans [OF keeps_connectionClose Cons.IH] by simp
qed

lemma keeps_peerCleanup: "keeps s (peerCleanup r s)"
  unfolding peerCleanup_def by (rule keeps_foldl_close)

lemma keeps_peerRemoveAllListeners: "keeps s (peerRemoveAllListeners r s)"
  unfolding peerRemoveAllListeners_def by (rule keeps_updPeerObj)


lemma disconnect_eq:
  "disconnect s =
     emit (Status Disconnected) ((beforeReset s)\<lparr>sn_connections := [], sn_peer := None\<rparr>)"
  unfolding beforeReset_def by (subst disconnect.simps) (simp add: Let_def)

lemma beforeReset_no_peer: "sn_peer s = None \<Longrightarrow> beforeReset s = s"
  by (simp add: beforeReset_def)

lemma keeps_teardown:
  fixes s s' s'' :: "'a ServerNetwork"
  shows "keeps s (disconnect s)"
    and "keeps s' (peerDestroy r s')"
    and "keeps s'' (peerDisconnect r' s'')"
proof (induction s and r s' and r' s'' rule: disconnect_peerDestroy_peerDisconnect.induct)
  case (1 s)
  define s1 where "s1 = (case sn_peer s of None \<Rightarrow> s | Some r \<Rightarrow> peerDestroy r s)"
  have k1: "keeps s s1"
    unfolding s1_def using 1 by (auto simp: keeps_refl split: option.splits)
  have k2: "keeps s1 (beforeReset s)"
    unfolding beforeReset_def Let_def s1_def [symmetric]
    by (auto simp: keeps_refl keeps_peerRemoveAllListeners split: option.splits)
  have k3: "keeps (beforeReset s)
      (emit (Status Disconnected) ((beforeReset s)\<lparr>sn_connections := [], sn_peer := None\<rparr>))"
    by (rule keeps_trans [OF keeps_reset keeps_emit_Status])
  show ?case
    unfolding disconnect_eq by (rule keeps_trans [OF k1 keeps_trans [OF k2 k3]])
next
  case (2 r s)
  show ?case
  proof (cases "r < length (sn_peerObjs s) \<and> \<not> pe_destroyed (sn_peerObjs s ! r)")
    case True
    note k1 = 2 [OF True]
    have "peerDestroy r s =
        updPeerObj r (\<lambda>p. p\<lparr>pe_destroyed := True\<rparr>) (peerCleanup r (peerDisconnect r s))"
      using True by (subst peerDestroy.simps) (simp add: Let_def)
    then show ?thesis
      using keeps_trans [OF k1 keeps_trans [OF keeps_peerCleanup keeps_updPeerObj]] by simp
  next
    case False
    then have "peerDestroy r s = s"
      by (subst peerDestroy.simps) auto
    then show ?thesis by (simp add: keeps_refl)
  qed
next
  case (3 r s)
  show ?case
  proof (cases "r < length (sn_peerObjs s) \<and> \<not> pe_disconnected (sn_peerObjs s ! r)")
    case True
    define s1 where "s1 = updPeerObj r (\<lambda>p. p\<lparr>pe_disconnected := True, pe_id := None\<rparr>) s"
    have k1: "keeps s s1" unfolding s1_def by (rule keeps_updPeerObj)
    show ?thesis
    proof (cases "pe_disconnected_l (sn_peerObjs s1 ! r)")
      case l: True
      let ?s2 = "updPeerObj r (\<lambda>p. p\<lparr>pe_disconnected_l := False\<rparr>) s1"
      have k2: "keeps ?s2 (disconnect ?s2)"
        using 3 [OF True s1_def l] .
      have "peerDisconnect r s = disconnect ?s2"
        using True l by (subst peerDisconnect.simps) (simp add: Let_def s1_def)
      then show ?thesis
        using keeps_trans [OF k1 keeps_trans [OF keeps_updPeerObj k2]] by simp
    next
      case l: False
      have "peerDisconnect r s = s1"
        using True l by (subst peerDisconnect.simps) (simp add: Let_def s1_def)
      then show ?thesis using k1 by simp
    qed
  next
    case False
    then have "peerDisconnect r s = s"
      by (subst peerDisconnect.simps) auto
    then show ?thesis by (simp add: keeps_refl)
  qed
qed

lemma keeps_beforeReset: "keeps s (beforeReset s)"
proof -
  define s1 where "s1 = (case sn_peer s of None \<Rightarrow> s | Some r \<Rightarrow> peerDestroy r s)"
  have k1: "keeps s s1"
    unfolding s1_def by (auto simp: keeps_refl keeps_teardown(2) split: option.splits)
  have k2: "keeps s1 (beforeReset s)"
    unfolding beforeReset_def Let_def s1_def [symmetric]
    by (auto simp: keeps_refl keeps_peerRemoveAllListeners split: option.splits)
  show ?thesis by (rule keeps_trans [OF k1 k2])
qed

lemma disconnect_fields [simp]:
  "sn_peer (disconnect s) = None"
  "sn_connections (disconnect s) = []"
  "sn_metadata (disconnect s) = sn_metadata s"
  "sn_id (disconnect s) = sn_id s"
  "sn_handleConnection (disconnect s) = sn_handleConnection s"
  "length (sn_peerObjs (disconnect s)) = length (sn_peerObjs s)"
  using keeps_teardown(1) [of s] by (simp_all add: disconnect_eq keeps_def)

lemma disconnect_emitted:
  "\<exists>es. sn_emitted (disconnect s) = sn_emitted s @ es @ [Status Disconnected]"
  using keeps_beforeReset [of s] by (auto simp: disconnect_eq keeps_def)

lemma disconnect_no_peer:
  "sn_peer s = None \<Longrightarrow>
   disconnect s = emit (Status Disconnected) (s\<lparr>sn_connections := [], sn_peer := None\<rparr>)"
  by (simp add: disconnect_eq beforeReset_no_peer)

lemma peerDisconnect_cases:
  "peerDisconnect r s = s
   \<or> peerDisconnect r s = updPeerObj r (\<lambda>p. p\<lparr>pe_disconnected := True, pe_id := None\<rparr>) s
   \<or> (\<exists>s'. peerDisconnect r s = disconnect s')"
  by (subst (1 2 3) peerDisconnect.simps) (auto simp: Let_def)

subsection \<open>The connection set\<close>

lemma distinct_set_add: "distinct xs \<Longrightarrow> distinct (set_add x xs)"
  by (simp add: set_add_def)

lemma distinct_set_delete: "distinct xs \<Longrightarrow> distinct (set_delete x xs)"
  by (simp add: set_delete_def)

lemma connInv_empty: "sn_connections s = [] \<Longrightarrow> connInv s"
  by (simp add: connInv_def)

lemma connInv_cong:
  "connInv s \<Longrightarrow> sn_connections s' = sn_connections s \<Longrightarrow> sn_open s' = sn_open s \<Longrightarrow>
   sn_listening s' = sn_listening s \<Longrightarrow> connInv s'"
  by (simp add: connInv_def)

lemma connInv_connectionClose: "connInv s \<Longrightarrow> connInv (connectionClose c s)"
  unfolding connectionClose_eq by (auto simp: connInv_def distinct_set_delete)

lemma connInv_removeConnection: "connInv s \<Longrightarrow> connInv (removeConnection c s)"
  unfolding removeConnection_eq by (auto simp: connInv_def distinct_set_delete)

lemma connInv_peerDisconnect: "connInv s \<Longrightarrow> connInv (peerDisconnect r s)"
  using peerDisconnect_cases [of r s]
  by (auto simp: connInv_empty intro: connInv_cong [of s])

lemma connect_fields:
  "sn_peer (connect md s) = None"
  "sn_connections (connect md s) = []"
  "sn_metadata (connect md s) = Some md"
  "sn_id (connect md s) = sn_id s"
  "sn_handleConnection (connect md s) = sn_handleConnection s"
  "length (sn_peerObjs (connect md s)) = Suc (length (sn_peerObjs s))"
  "sn_peerObjs (connect md s) ! length (sn_peerObjs s) = newPeer (sn_id s)"
  "sn_emitted (connect md s) =
     sn_emitted (disconnect (s\<lparr>sn_metadata := Some md\<rparr>)) @ [Status Connecting]"
  "sn_wire (connect md s) = sn_wire (disconnect (s\<lparr>sn_metadata := Some md\<rparr>))"
proof -
  let ?d = "disconnect (s\<lparr>sn_metadata := Some md\<rparr>)"
  have l: "length (sn_peerObjs ?d) = length (sn_peerObjs s)" by simp
  show "sn_peerObjs (connect md s) ! length (sn_peerObjs s) = newPeer (sn_id s)"
    using nth_append_length [of "sn_peerObjs ?d" "newPeer (sn_id s)" "[]"]
    by (simp add: connect_def Let_def l)
qed (simp_all add: connect_def Let_def)

lemma connInv_onPeerOpen: "connInv s \<Longrightarrow> connInv (onPeerOpen r s)"
  by (auto simp: onPeerOpen_def Let_def intro: connInv_cong [of s])

lemma connInv_onPeerError: "connInv s \<Longrightarrow> connInv (onPeerError r e s)"
  by (auto simp: onPeerError_def Let_def intro!: connInv_empty)

lemma connInv_onPeerConnection: "connInv s \<Longrightarrow> connInv (onPeerConnection r c s)"
proof -
  assume i: "connInv s"
  let ?s1 = "updPeerObj r (\<lambda>p. p\<lparr>pe_connections := set_add c (pe_connections p)\<rparr>) s"
  have i1: "connInv ?s1" by (rule connInv_cong [OF i]) simp_all
  have "connInv (addConnection c ?s1)"
    by (rule connInv_cong [OF i1]) (simp_all add: addConnection_def)
  with i1 connInv_connectionClose [OF i1, of c] show ?thesis
    by (simp add: onPeerConnection_def Let_def)
qed

lemma connInv_onConnectionOpen:
  assumes "connInv s" and "c \<in> set (sn_open s)"
  shows "connInv (onConnectionOpen c s)"
  using assms
  by (auto simp: connInv_def onConnectionOpen_def Let_def channel_send_def distinct_set_add)

lemma connInv_step: "connInv s \<Longrightarrow> connInv (step e s)"
proof (cases e)
  case (CallConnect md)
  then show ?thesis by (simp add: connInv_empty connect_fields)
next
  case CallDisconnect
  then show ?thesis by (simp add: connInv_empty)
next
  case (CallSend ch d)
  assume "connInv s"
  then show ?thesis using CallSend by (auto intro: connInv_cong [of s])
next
  case (CallSetHandleConnection f)
  assume "connInv s"
  then show ?thesis using CallSetHandleConnection
    by (auto simp: setHandleConnection_def intro: connInv_cong [of s])
next
  case (PeerOpen r)
  assume "connInv s"
  then show ?thesis using PeerOpen by (simp add: connInv_onPeerOpen)
next
  case (PeerDisconnected r)
  assume "connInv s"
  then show ?thesis using PeerDisconnected by (simp add: connInv_peerDisconnect)
next
  case (PeerError r err)
  assume "connInv s"
  then show ?thesis using PeerError by (simp add: connInv_onPeerError)
next
  case (PeerConnection r c)
  assume "connInv s"
  then show ?thesis using PeerConnection by (simp add: connInv_onPeerConnection)
next
  case (ConnOpen c)
  assume i: "connInv s"
  let ?s1 = "s\<lparr>sn_open := set_add c (sn_open s)\<rparr>"
  have i1: "connInv ?s1" using i by (auto simp: connInv_def)
  let ?s2 = "?s1\<lparr>sn_awaiting := set_delete c (sn_awaiting ?s1)\<rparr>"
  have "connInv ?s2" by (rule connInv_cong [OF i1]) simp_all
  then have "connInv (onConnectionOpen c ?s2)"
    by (rule connInv_onConnectionOpen) simp
  then show ?thesis using ConnOpen i i1 by (simp add: Let_def)
next
  case (ConnData c m)
  assume "connInv s"
  then show ?thesis using ConnData
    by (auto simp: handleMessage_def super_handleMessage_def intro: connInv_cong [of s])
next
  case (ConnClose c)
  assume "connInv s"
  then show ?thesis using ConnClose by (simp add: connInv_connectionClose)
next
  case (ConnError c)
  assume "connInv s"
  then show ?thesis using ConnError by (simp add: connInv_removeConnection)
qed

lemma connInv_run: "connInv s \<Longrightarrow> connInv (run es s)"
  by (induction es arbitrary: s) (simp_all add: connInv_step)

lemma connInv_reachable: "connInv (run es (newServerNetwork ident))"
  by (rule connInv_run) (simp add: connInv_def newServerNetwork_def)

lemma connections_reachable: "distinct (sn_connections (run es (newServerNetwork ident)))"
  using connInv_reachable [of es ident] by (simp add: connInv_def)

lemma connections_open_reachable:
  "set (sn_connections (run es (newServerNetwork ident)))
     \<subseteq> set (sn_open (run es (newServerNetwork ident)))"
  using connInv_reachable [of es ident] by (simp add: connInv_def)

subsection \<open>Steps that only tear down\<close>

lemma keeps_addConnection: "keeps s (addConnection c s)"
  by (rule keeps_same) (simp_all add: addConnection_def)

lemma keeps_onPeerError: "keeps s (onPeerError r e s)"
proof (cases "listens pe_error_l r s")
  case True
  let ?s1 = "updPeerObj r (\<lambda>p. p\<lparr>pe_error_l := False\<rparr>) s"
  have "keeps s (updPeerObj r (\<lambda>p. p\<lparr>pe_promise := reject e (pe_promise p)\<rparr>) (disconnect ?s1))"
    by (rule keeps_trans [OF keeps_updPeerObj keeps_trans [OF keeps_teardown(1) keeps_updPeerObj]])
  then show ?thesis using True by (simp add: onPeerError_def Let_def)
next
  case False
  then show ?thesis by (simp add: onPeerError_def keeps_refl)
qed

lemma keeps_onPeerConnection: "keeps s (onPeerConnection r c s)"
proof -
  let ?s1 = "updPeerObj r (\<lambda>p. p\<lparr>pe_connections := set_add c (pe_connections p)\<rparr>) s"
  have k1: "keeps s ?s1" by (rule keeps_updPeerObj)
  from keeps_trans [OF k1 keeps_addConnection] keeps_trans [OF k1 keeps_connectionClose] k1
  show ?thesis by (simp add: onPeerConnection_def Let_def)
qed

lemma keeps_step: "tearsDown e \<Longrightarrow> keeps s (step e s)"
  by (cases e)
    (simp_all add: keeps_teardown keeps_onPeerError keeps_onPeerConnection keeps_connectionClose
      keeps_removeConnection keeps_refl)

lemma keeps_wire: "keeps s s' \<Longrightarrow> wireChannels s' \<subseteq> insert ''leave'' (wireChannels s)"
  by (simp add: keeps_def)

lemma keeps_peers:
  assumes "keeps s s'" and "Peers ps \<in> set (emittedBetween s s')"
  shows "ownRoster (set (sn_connections s)) (sn_metadata s) ps"
  using assms by (auto simp: keeps_def emittedBetween_def)

subsection \<open>The channels on the wire\<close>

lemma wireChannels_broadcast:
  "wireChannels (broadcast m x s) \<subseteq> insert (msg_channel m) (wireChannels s)"
  by (auto simp: wireChannels_def broadcast_def)

lemma wireChannels_send: "wireChannels (send ch d s) \<subseteq> insert ch (wireChannels s)"
  using wireChannels_broadcast [of "\<lparr>msg_channel = ch, msg_data = d, msg_peer = pid\<rparr>" None s for pid]
  by (auto simp: send_def split: option.splits)

lemma wireChannels_onConnectionOpen:
  "wireChannels (onConnectionOpen c s) \<subseteq> insert ''join'' (wireChannels s)"
  unfolding onConnectionOpen_def channel_send_def Let_def
  by (rule subset_trans [OF wireChannels_send]) (auto simp: wireChannels_def)

lemma wireChannels_handleMessage:
  "wireChannels (handleMessage c m s) \<subseteq> insert (msg_channel m) (wireChannels s)"
  unfolding handleMessage_def super_handleMessage_def
  by (rule subset_trans [OF wireChannels_broadcast]) (auto simp: wireChannels_def)

lemma wireChannels_connect:
  "wireChannels (connect md s) \<subseteq> insert ''leave'' (wireChannels s)"
  using keeps_wire [OF keeps_teardown(1), of "s\<lparr>sn_metadata := Some md\<rparr>"]
  by (simp add: wireChannels_def connect_fields)

lemma wire_onPeerOpen [simp]: "sn_wire (onPeerOpen r s) = sn_wire s"
  by (simp add: onPeerOpen_def Let_def)

lemma wireChannels_step:
  "wireChannels (step e s) \<subseteq> wireChannels s \<union> {''join'', ''leave''} \<union> set (eventChannels e)"
proof (cases "tearsDown e")
  case True
  from keeps_wire [OF keeps_step [OF True], of s] show ?thesis by auto
next
  case False
  show ?thesis
  proof (cases e)
    case (CallConnect md)
    then show ?thesis using wireChannels_connect [of md s] by auto
  next
    case (CallSend ch d)
    then show ?thesis using wireChannels_send [of ch d s] by auto
  next
    case (CallSetHandleConnection f)
    then show ?thesis by (auto simp: wireChannels_def setHandleConnection_def)
  next
    case (PeerOpen r)
    then show ?thesis by (auto simp: wireChannels_def)
  next
    case (ConnOpen c)
    then show ?thesis
      using wireChannels_onConnectionOpen
        [of c "s\<lparr>sn_open := set_add c (sn_open s), sn_awaiting := set_delete c (sn_awaiting s)\<rparr>"]
      by (auto simp: wireChannels_def Let_def)
  next
    case (ConnData c m)
    then show ?thesis using wireChannels_handleMessage [of c m s] by auto
  qed (use False in simp_all)
qed

lemma wireChannels_run:
  "wireChannels (run es s) \<subseteq>
     wireChannels s \<union> {''join'', ''leave''} \<union> set (concat (map eventChannels es))"
proof (induction es arbitrary: s)
  case Nil
  show ?case by auto
next
  case (Cons e es)
  from Cons.IH [of "step e s"] wireChannels_step [of e s] show ?case by auto
qed

subsection \<open>The peer lists emitted\<close>

lemma emittedBetween_append [simp]:
  "sn_emitted s' = sn_emitted s @ es \<Longrightarrow> emittedBetween s s' = es"
  by (simp add: emittedBetween_def)

lemma getPeerData_updPeerObj:
  assumes "\<And>p. pe_id (f p) = pe_id p"
  shows "getPeerData (updPeerObj r f s) = getPeerData s"
proof -
  have "map_option pe_id (thisPeer (updPeerObj r f s)) = map_option pe_id (thisPeer s)"
    by (cases "sn_peer s") (auto simp: thisPeer_def updPeerObj_def nth_list_update assms)
  then show ?thesis
    by (cases "thisPeer (updPeerObj r f s)"; cases "thisPeer s")
      (auto simp: getPeerData_def split: option.splits)
qed

lemma connectedPeers_updPeerObj:
  "(\<And>p. pe_id (f p) = pe_id p) \<Longrightarrow> connectedPeers (updPeerObj r f s) = connectedPeers s"
  by (simp add: connectedPeers_def getPeerData_updPeerObj)

lemma connectedPeers_emit [simp]: "connectedPeers (emit ev s) = connectedPeers s"
  by (rule connectedPeers_cong) simp_all

lemma emitted_onPeerOpen:
  assumes "listens pe_open_l r s"
  shows "sn_emitted (onPeerOpen r s) =
     sn_emitted s @ [Status Connected, Peers (connectedPeers (onPeerOpen r s))]"
proof -
  let ?s4 = "(updPeerObj r (\<lambda>p. p\<lparr>pe_connection_l := True\<rparr>)
               (emit (Status Connected) (updPeerObj r (\<lambda>p. p\<lparr>pe_open_l := False\<rparr>) s)))
             \<lparr>sn_peer := Some r\<rparr>"
  have o: "onPeerOpen r s =
      updPeerObj r (\<lambda>p. p\<lparr>pe_promise := resolve (pe_promise p)\<rparr>)
        (emit (Peers (connectedPeers ?s4)) ?s4)"
    using assms by (simp add: onPeerOpen_def Let_def)
  have "connectedPeers (onPeerOpen r s) = connectedPeers ?s4"
    unfolding o by (simp add: connectedPeers_updPeerObj)
  then show ?thesis unfolding o by simp
qed

lemma emitted_onConnectionOpen:
  "sn_emitted (onConnectionOpen c s) =
     sn_emitted s @ [Peers (connectedPeers (onConnectionOpen c s)), Join (md_name (dc_metadata c))]"
proof -
  let ?s1 = "s\<lparr>sn_listening := set_add c (sn_listening s),
                sn_connections := set_add c (sn_connections s)\<rparr>"
  have "connectedPeers (onConnectionOpen c s) = connectedPeers ?s1"
    by (rule connectedPeers_cong) (simp_all add: onConnectionOpen_def Let_def channel_send_def)
  then show ?thesis
    by (simp add: onConnectionOpen_def Let_def channel_send_def)
qed

lemma peers_onPeerOpen:
  "Peers ps \<in> set (emittedBetween s (onPeerOpen r s)) \<Longrightarrow> ps = connectedPeers (onPeerOpen r s)"
  using emitted_onPeerOpen [of r s]
  by (cases "listens pe_open_l r s") (auto simp: emittedBetween_def onPeerOpen_def)

lemma peers_onConnectionOpen:
  "Peers ps \<in> set (emittedBetween s (onConnectionOpen c s)) \<Longrightarrow>
   ps = connectedPeers (onConnectionOpen c s)"
  by (simp add: emitted_onConnectionOpen)

lemma set_delete_idem [simp]: "set_delete x (set_delete x xs) = set_delete x xs"
  by (simp add: set_delete_def)

lemma connectedPeers_afterClose_twice:
  "connectedPeers (afterClose c (afterClose c s)) = connectedPeers (afterClose c s)"
  by (simp add: connectedPeers_afterClose)

lemma connectedPeers_markClosed [simp]: "connectedPeers (markClosed c s) = connectedPeers s"
  by (rule connectedPeers_cong) simp_all

lemma peers_removeConnection:
  "Peers ps \<in> set (emittedBetween s (removeConnection c s)) \<Longrightarrow>
   ps = connectedPeers (removeConnection c s)"
  unfolding removeConnection_eq
  by (auto simp: emittedBetween_def emitted_afterClose connectedPeers_afterClose_twice
      split: if_splits)

lemma peers_step:
  assumes "Peers ps \<in> set (emittedBetween s (step e s))"
  shows "ownRoster (set (sn_connections s) \<union> set (sn_connections (step e s)))
           (sn_metadata (step e s)) ps"
proof (cases "tearsDown e")
  case True
  have k: "keeps s (step e s)" by (rule keeps_step [OF True])
  then have "sn_metadata (step e s) = sn_metadata s" by (simp add: keeps_def)
  with keeps_peers [OF k assms] show ?thesis
    by (auto intro: ownRoster_mono)
next
  case False
  show ?thesis
  proof (cases e)
    case (CallConnect md)
    let ?s1 = "s\<lparr>sn_metadata := Some md\<rparr>"
    have k: "keeps ?s1 (disconnect ?s1)" by (rule keeps_teardown(1))
    then obtain es where es: "sn_emitted (disconnect ?s1) = sn_emitted s @ es"
      "\<forall>ps. Peers ps \<in> set es \<longrightarrow> ownRoster (set (sn_connections s)) (Some md) ps"
      by (auto simp: keeps_def)
    have "emittedBetween s (step e s) = es @ [Status Connecting]"
      using CallConnect es(1) by (simp add: connect_fields)
    with assms es(2) have "ownRoster (set (sn_connections s)) (Some md) ps" by auto
    then show ?thesis using CallConnect
      by (auto simp: connect_fields intro: ownRoster_mono)
  next
    case (CallSend ch d)
    then show ?thesis using assms by (simp add: emittedBetween_def)
  next
    case (CallSetHandleConnection f)
    then show ?thesis using assms by (simp add: emittedBetween_def setHandleConnection_def)
  next
    case (PeerOpen r)
    with assms have "ps = connectedPeers (step e s)"
      by (simp add: peers_onPeerOpen)
    then show ?thesis
      using ownRoster_connectedPeers [of "step e s"] by auto
  next
    case (ConnOpen c)
    let ?s2 = "s\<lparr>sn_open := set_add c (sn_open s), sn_awaiting := set_delete c (sn_awaiting s)\<rparr>"
    have "ps = connectedPeers (step e s)"
      using assms ConnOpen peers_onConnectionOpen [of ps ?s2 c]
      by (auto simp: Let_def emittedBetween_def split: if_splits)
    then show ?thesis
      using ownRoster_connectedPeers [of "step e s"] by auto
  next
    case (ConnData c m)
    then show ?thesis using assms
      by (auto simp: emittedBetween_def handleMessage_def super_handleMessage_def split: if_splits)
  qed (use False in simp_all)
qed

lemma sentBetween_handleMessage:
  "sentBetween s (handleMessage c m s) =
     map (\<lambda>c'. (c', m\<lparr>msg_peer := Some (dc_peer c)\<rparr>)) (filter (\<lambda>c'. c' \<noteq> c) (sn_connections s))"
  by (simp add: sentBetween_def handleMessage_def broadcast_def super_handleMessage_def emit_def)

lemma count_list_filter_distinct:
  "distinct xs \<Longrightarrow> count_list (filter P xs) x = (if x \<in> set xs \<and> P x then 1 else 0)"
  by (induction xs) auto

subsection \<open>The sample session\<close>

lemma hostWithBob_fields:
  "thisPeer hostWithBob = Some (sn_peerObjs hostWithBob ! 0)"
  "pe_id (sn_peerObjs hostWithBob ! 0) = Some ''host''"
  "sn_metadata hostWithBob = Some mdHost"
  "sn_connections hostWithBob = [bob]"
  by code_simp+

lemma hostWithBoth_fields:
  "thisPeer hostWithBoth = Some (sn_peerObjs hostWithBoth ! 0)"
  "pe_id (sn_peerObjs hostWithBoth ! 0) = Some ''host''"
  "sn_metadata hostWithBoth = Some mdHost"
  "sn_connections hostWithBoth = [bob, alice]"
  "sn_open hostWithBoth = [bob, alice]"
  "sn_listening hostWithBoth = [bob, alice]"
  by code_simp+

lemma alice_bob: "alice \<noteq> bob" "dc_peer alice = ''alice''" "dc_peer bob = ''bob''"
  by code_simp+

subsection \<open>Relay\<close>

text \<open>
  Claim C1. An envelope \<open>m\<close> that the host receives from the connection \<open>a\<close> is
  written once on every other connection of the set and never on \<open>a\<close> itself; every copy
  carries \<open>a\<close>'s own peer id in the field \<open>peer\<close>, whatever the sender had put there,
  and the channel and the payload of \<open>m\<close> unchanged. The connection set holds no
  connection twice.
\<close>

theorem relay_fanout:
  assumes "distinct (sn_connections s)"
  shows "sentBetween s (handleMessage a m s) =
           map (\<lambda>c. (c, m\<lparr>msg_peer := Some (dc_peer a)\<rparr>)) (filter (\<lambda>c. c \<noteq> a) (sn_connections s))
       \<and> (\<forall>c \<in> set (sn_connections s). c \<noteq> a \<longrightarrow>
            count_list (map fst (sentBetween s (handleMessage a m s))) c = 1)
       \<and> count_list (map fst (sentBetween s (handleMessage a m s))) a = 0
       \<and> (\<forall>cm \<in> set (sentBetween s (handleMessage a m s)).
            msg_peer (snd cm) = Some (dc_peer a) \<and> msg_channel (snd cm) = msg_channel m
            \<and> msg_data (snd cm) = msg_data m)"
  using assms
  by (auto simp: sentBetween_handleMessage comp_def count_list_filter_distinct)

theorem relay_fanout_witness:
  "distinct (sn_connections hostWithBoth)
   \<and> sentBetween hostWithBoth (handleMessage alice chatEnvelope hostWithBoth) =
       [(bob, chatEnvelope\<lparr>msg_peer := Some ''alice''\<rparr>)]
   \<and> count_list (map fst (sentBetween hostWithBoth (handleMessage alice chatEnvelope hostWithBoth))) bob = 1
   \<and> count_list (map fst (sentBetween hostWithBoth (handleMessage alice chatEnvelope hostWithBoth))) alice = 0"
proof -
  have d: "distinct (sn_connections hostWithBoth)"
    by (simp add: hostWithBoth_fields alice_bob(1) [symmetric])
  from relay_fanout [OF d, of alice chatEnvelope] d show ?thesis
    by (simp add: hostWithBoth_fields alice_bob)
qed

subsection \<open>Join\<close>

text \<open>
  Claim C2, as stated, fails: the join envelope is not sent to the new connection alone.
  When Alice's connection opens on a host that already serves Bob, Bob's connection
  receives the join envelope too.
\<close>

theorem join_unicast_counterexample:
  "(bob, \<lparr>msg_channel = ''join'',
          msg_data = Roster (peerDataOf alice) (connectedPeers (onConnectionOpen alice hostWithBob)),
          msg_peer = Some ''host''\<rparr>)
     \<in> set (sentBetween hostWithBob (onConnectionOpen alice hostWithBob))"
  by code_simp

text \<open>
  Claim C2, amended. On a connected host (its peer is open under the id \<open>hid\<close> and its
  metadata set), when a new connection \<open>c\<close> opens, the join envelope is broadcast: it is
  written once on every connection of the set, the new one and each connection already
  there, stamped with the host's id. Its peer list has one entry for every connection,
  the new one included, and one for the host, so it is one longer than the peer list
  before; the uuids are pairwise distinct when the peer ids of the connections are
  distinct and differ from the host's. The peer list and the name of the new peer are
  also emitted locally.
\<close>

theorem join_broadcast:
  assumes "thisPeer s = Some p" and "pe_id p = Some hid" and "sn_metadata s = Some md"
      and "c \<notin> set (sn_connections s)" and "distinct (sn_connections s)"
  shows "(let s' = onConnectionOpen c s; peers = connectedPeers s' in
           sn_connections s' = sn_connections s @ [c]
         \<and> sentBetween s s' =
             map (\<lambda>c'. (c', \<lparr>msg_channel = ''join'', msg_data = Roster (peerDataOf c) peers,
                             msg_peer = Some hid\<rparr>))
               (sn_connections s @ [c])
         \<and> emittedBetween s s' = [Peers peers, Join (md_name (dc_metadata c))]
         \<and> peers = map peerDataOf (sn_connections s) @
                     [peerDataOf c, \<lparr>pd_uuid = Some hid, pd_metadata = md\<rparr>]
         \<and> length peers = length (connectedPeers s) + 1
         \<and> (distinct (hid # map dc_peer (sn_connections s @ [c])) \<longrightarrow>
              distinct (map pd_uuid peers)))"
proof -
  let ?s1 = "s\<lparr>sn_listening := set_add c (sn_listening s),
                sn_connections := set_add c (sn_connections s)\<rparr>"
  let ?s3 = "emit (Join (md_name (dc_metadata c))) (emit (Peers (connectedPeers ?s1)) ?s1)"
  have tp: "thisPeer ?s1 = Some p" "thisPeer ?s3 = Some p"
    using assms(1) thisPeer_cong [of ?s1 s] thisPeer_cong [of ?s3 s] by simp_all
  have cs: "sn_connections ?s1 = sn_connections s @ [c]"
    using assms(4) by (simp add: set_add_def)
  have cp1: "connectedPeers ?s1 =
      map peerDataOf (sn_connections s) @ [peerDataOf c, \<lparr>pd_uuid = Some hid, pd_metadata = md\<rparr>]"
    using assms(2,3) by (simp add: connectedPeers_def getPeerData_def tp cs)
  have cp0: "connectedPeers s =
      map peerDataOf (sn_connections s) @ [\<lparr>pd_uuid = Some hid, pd_metadata = md\<rparr>]"
    using assms(1,2,3) by (simp add: connectedPeers_def getPeerData_def)
  have o: "onConnectionOpen c s = send ''join'' (Roster (peerDataOf c) (connectedPeers ?s1)) ?s3"
    by (simp add: onConnectionOpen_def Let_def channel_send_def)
  have cp: "connectedPeers (onConnectionOpen c s) = connectedPeers ?s1"
    by (rule connectedPeers_cong) (simp_all add: o)
  have w: "sentBetween s (onConnectionOpen c s) =
      map (\<lambda>c'. (c', \<lparr>msg_channel = ''join'',
                      msg_data = Roster (peerDataOf c) (connectedPeers ?s1),
                      msg_peer = Some hid\<rparr>))
        (sn_connections s @ [c])"
    unfolding o using assms(2) by (simp add: sentBetween_def send_def tp broadcast_def cs)
  have d: "distinct (hid # map dc_peer (sn_connections s @ [c])) \<longrightarrow>
      distinct (map pd_uuid (connectedPeers ?s1))"
    unfolding cp1 by (auto simp: peerDataOf_def comp_def distinct_map inj_on_def)
  show ?thesis
    unfolding Let_def cp
    using w d by (simp add: emitted_onConnectionOpen cp cp1 cp0 cs o)
qed

theorem join_broadcast_witness:
  "thisPeer hostWithBob = Some (sn_peerObjs hostWithBob ! 0)
   \<and> pe_id (sn_peerObjs hostWithBob ! 0) = Some ''host''
   \<and> sn_metadata hostWithBob = Some mdHost
   \<and> alice \<notin> set (sn_connections hostWithBob) \<and> distinct (sn_connections hostWithBob)
   \<and> distinct (''host'' # map dc_peer (sn_connections hostWithBob @ [alice]))
   \<and> map fst (sentBetween hostWithBob (onConnectionOpen alice hostWithBob)) = [bob, alice]
   \<and> length (connectedPeers (onConnectionOpen alice hostWithBob)) = 3
   \<and> distinct (map pd_uuid (connectedPeers (onConnectionOpen alice hostWithBob)))"
proof -
  have h: "thisPeer hostWithBob = Some (sn_peerObjs hostWithBob ! 0)"
    "pe_id (sn_peerObjs hostWithBob ! 0) = Some ''host''" "sn_metadata hostWithBob = Some mdHost"
    "alice \<notin> set (sn_connections hostWithBob)" "distinct (sn_connections hostWithBob)"
    by (simp_all add: hostWithBob_fields alice_bob)
  have d: "distinct (''host'' # map dc_peer (sn_connections hostWithBob @ [alice]))"
    by (simp add: hostWithBob_fields alice_bob)
  from join_broadcast [OF h] h d show ?thesis
    by (simp add: Let_def hostWithBob_fields comp_def peerDataOf_def alice_bob)
qed

subsection \<open>Leave\<close>

text \<open>
  When the transport closes the connection \<open>b\<close> of a host whose peer is set, the close
  listener runs \<open>removeConnection\<close> once, and its call of \<open>close()\<close> finds the
  connection closed: \<open>b\<close> leaves the set, the peer list of the remaining connections
  and the host is emitted with leave, and one leave envelope with that list is written
  on every remaining connection. No entry of the list carries \<open>b\<close>'s uuid, given that
  \<open>b\<close> was the only connection of its peer and that its peer id is not the host's.
\<close>

lemma leave_on_close:
  assumes "thisPeer s = Some p"
      and "b \<in> set (sn_open s)" and "b \<in> set (sn_listening s)"
      and "distinct (sn_connections s)"
      and "dc_peer b \<notin> dc_peer ` set (set_delete b (sn_connections s))"
      and "pe_id p \<noteq> Some (dc_peer b)"
  shows "(let s' = step (ConnClose b) s; peers = connectedPeers s';
              sent = sentBetween s s' in
           sn_connections s' = set_delete b (sn_connections s)
         \<and> b \<notin> set (sn_connections s')
         \<and> peers = map peerDataOf (set_delete b (sn_connections s)) @
                     (case sn_metadata s of
                        None \<Rightarrow> [] | Some md \<Rightarrow> [\<lparr>pd_uuid = pe_id p, pd_metadata = md\<rparr>])
         \<and> emittedBetween s s' = [Peers peers, Leave (md_name (dc_metadata b))]
         \<and> sent = map (\<lambda>c. (c, \<lparr>msg_channel = ''leave'', msg_data = Roster (peerDataOf b) peers,
                                msg_peer = pe_id p\<rparr>))
                    (sn_connections s')
         \<and> (\<forall>c \<in> set (sn_connections s'). count_list (map fst sent) c = 1)
         \<and> count_list (map fst sent) b = 0
         \<and> Some (dc_peer b) \<notin> pd_uuid ` set peers)"
proof -
  let ?m = "markClosed b s"
  have st: "step (ConnClose b) s = afterClose b ?m"
    using assms(2,3) by (simp add: connectionClose_eq)
  have tp: "thisPeer ?m = Some p"
    using assms(1) thisPeer_cong [of ?m s] by simp
  have gp: "getPeerData ?m =
      (case sn_metadata s of None \<Rightarrow> None | Some md \<Rightarrow> Some \<lparr>pd_uuid = pe_id p, pd_metadata = md\<rparr>)"
    by (simp add: getPeerData_def tp cong: option.case_cong)
  have cp: "connectedPeers (afterClose b ?m) =
      map peerDataOf (set_delete b (sn_connections s)) @
      (case sn_metadata s of None \<Rightarrow> [] | Some md \<Rightarrow> [\<lparr>pd_uuid = pe_id p, pd_metadata = md\<rparr>])"
    by (simp add: connectedPeers_afterClose gp split: option.splits)
  have w: "sentBetween s (afterClose b ?m) =
      map (\<lambda>c. (c, \<lparr>msg_channel = ''leave'',
                     msg_data = Roster (peerDataOf b) (connectedPeers (afterClose b ?m)),
                     msg_peer = pe_id p\<rparr>))
        (set_delete b (sn_connections s))"
    by (simp add: sentBetween_def wire_afterClose tp)
  have d: "distinct (set_delete b (sn_connections s))"
    using assms(4) by (rule distinct_set_delete)
  have n: "Some (dc_peer b) \<notin> pd_uuid ` set (connectedPeers (afterClose b ?m))"
    unfolding cp using assms(5,6) by (auto simp: peerDataOf_def split: option.splits)
  have c1: "\<forall>c \<in> set (set_delete b (sn_connections s)).
      count_list (map fst (sentBetween s (afterClose b ?m))) c = 1"
    unfolding w using assms(4) by (auto simp: comp_def count_list_filter_distinct set_delete_def)
  have c0: "count_list (map fst (sentBetween s (afterClose b ?m))) b = 0"
    unfolding w by (simp add: comp_def set_delete_def count_list_0_iff)
  show ?thesis
    unfolding Let_def st
    using w n c1 c0 cp by (simp add: emitted_afterClose)
qed

text \<open>
  When the connection \<open>b\<close> emits error while it is open and has its listeners, every
  envelope of the close path is written twice.
\<close>

lemma leave_on_error:
  assumes "thisPeer s = Some p"
      and "b \<in> set (sn_open s)" and "b \<in> set (sn_listening s)"
  shows "sentBetween s (step (ConnError b) s) =
           sentBetween s (step (ConnClose b) s) @ sentBetween s (step (ConnClose b) s)"
proof -
  let ?m = "markClosed b s"
  let ?a = "afterClose b ?m"
  have tp: "thisPeer ?m = Some p"
    using assms(1) thisPeer_cong [of ?m s] by simp
  have "sn_wire (afterClose b ?a) =
      sn_wire ?a @
      map (\<lambda>c'. (c', \<lparr>msg_channel = ''leave'',
                      msg_data = Roster (peerDataOf b) (connectedPeers ?a),
                      msg_peer = pe_id p\<rparr>))
        (set_delete b (sn_connections s))"
    by (subst wire_afterClose) (simp add: tp connectedPeers_afterClose_twice)
  moreover have "sn_wire ?a =
      sn_wire s @
      map (\<lambda>c'. (c', \<lparr>msg_channel = ''leave'',
                      msg_data = Roster (peerDataOf b) (connectedPeers ?a),
                      msg_peer = pe_id p\<rparr>))
        (set_delete b (sn_connections s))"
    by (subst wire_afterClose) (simp add: tp)
  ultimately show ?thesis
    using assms(2,3) by (simp add: removeConnection_eq connectionClose_eq sentBetween_def)
qed

text \<open>
  Claim C3. The claim does not hold when the connection errors. An open connection
  that emits error has its listeners registered: the error listener runs
  \<open>removeConnection\<close>, whose first statement \<open>connection.close()\<close> emits close
  before \<open>removeAllListeners()\<close> has run, so the close listener runs
  \<open>removeConnection\<close> to its end inside that call and the outer call does the rest
  again. On the host that serves Bob and Alice, an error of Alice's connection writes the
  leave envelope twice on Bob's connection and emits the peer list and leave twice
  locally, where the claim has exactly one leave envelope for every remaining
  connection. When Alice's connection closes instead, one leave envelope is written.
\<close>

theorem leave_twice_on_error:
  "sentBetween hostWithBoth (step (ConnError alice) hostWithBoth) =
     [(bob, leaveAlice), (bob, leaveAlice)]
   \<and> count_list (map fst (sentBetween hostWithBoth (step (ConnError alice) hostWithBoth))) bob = 2
   \<and> emittedBetween hostWithBoth (step (ConnError alice) hostWithBoth) =
       [Peers [peerDataOf bob, hostPeer], Leave ''Alice'',
        Peers [peerDataOf bob, hostPeer], Leave ''Alice'']
   \<and> sentBetween hostWithBoth (step (ConnClose alice) hostWithBoth) = [(bob, leaveAlice)]"
  by code_simp

subsection \<open>Connecting\<close>

lemma statusOf_append_Status [simp]: "statusOf (es @ [Status st]) = st"
  by (simp add: statusOf_def)

lemma updPeerObj_nth:
  "r < length (sn_peerObjs s) \<Longrightarrow> sn_peerObjs (updPeerObj r f s) ! r = f (sn_peerObjs s ! r)"
  by (simp add: updPeerObj_def)

lemma onPeerError_armed:
  assumes "r < length (sn_peerObjs s)" and "pe_error_l (sn_peerObjs s ! r)" and "sn_peer s = None"
  shows "sn_emitted (onPeerError r e s) = sn_emitted s @ [Status Disconnected]"
    and "sn_peer (onPeerError r e s) = None"
    and "sn_peerObjs (onPeerError r e s) ! r =
           (sn_peerObjs s ! r)\<lparr>pe_error_l := False, pe_promise := reject e (pe_promise (sn_peerObjs s ! r))\<rparr>"
    and "r < length (sn_peerObjs (onPeerError r e s))"
proof -
  let ?s1 = "updPeerObj r (\<lambda>p. p\<lparr>pe_error_l := False\<rparr>) s"
  have d: "disconnect ?s1 =
      emit (Status Disconnected) (?s1\<lparr>sn_connections := [], sn_peer := None\<rparr>)"
    by (rule disconnect_no_peer) (simp add: assms(3))
  have o: "onPeerError r e s =
      updPeerObj r (\<lambda>p. p\<lparr>pe_promise := reject e (pe_promise p)\<rparr>)
        (emit (Status Disconnected) (?s1\<lparr>sn_connections := [], sn_peer := None\<rparr>))"
    using assms(1,2) by (simp add: onPeerError_def listens_def Let_def d)
  show "sn_emitted (onPeerError r e s) = sn_emitted s @ [Status Disconnected]"
    unfolding o by simp
  show "sn_peer (onPeerError r e s) = None"
    unfolding o by simp
  show "sn_peerObjs (onPeerError r e s) ! r =
           (sn_peerObjs s ! r)\<lparr>pe_error_l := False, pe_promise := reject e (pe_promise (sn_peerObjs s ! r))\<rparr>"
    unfolding o using assms(1) by (simp add: updPeerObj_def emit_def)
  show "r < length (sn_peerObjs (onPeerError r e s))"
    unfolding o using assms(1) by (simp add: updPeerObj_def emit_def)
qed

lemma onPeerError_fired:
  "\<not> pe_error_l (sn_peerObjs s ! r) \<Longrightarrow> onPeerError r e s = s"
  by (simp add: onPeerError_def listens_def)

lemma peerDisconnect_armed:
  assumes "r < length (sn_peerObjs s)" and "\<not> pe_disconnected (sn_peerObjs s ! r)"
      and "pe_disconnected_l (sn_peerObjs s ! r)" and "sn_peer s = None"
  shows "sn_emitted (peerDisconnect r s) = sn_emitted s @ [Status Disconnected]"
    and "pe_promise (sn_peerObjs (peerDisconnect r s) ! r) = pe_promise (sn_peerObjs s ! r)"
proof -
  let ?s1 = "updPeerObj r (\<lambda>p. p\<lparr>pe_disconnected := True, pe_id := None\<rparr>) s"
  let ?s2 = "updPeerObj r (\<lambda>p. p\<lparr>pe_disconnected_l := False\<rparr>) ?s1"
  have d: "disconnect ?s2 =
      emit (Status Disconnected) (?s2\<lparr>sn_connections := [], sn_peer := None\<rparr>)"
    by (rule disconnect_no_peer) (simp add: assms(4))
  have l: "pe_disconnected_l (sn_peerObjs ?s1 ! r)"
    using assms(1,3) by (simp add: updPeerObj_def)
  have p: "peerDisconnect r s = disconnect ?s2"
    using assms(1,2) l by (subst peerDisconnect.simps) (simp add: Let_def)
  show "sn_emitted (peerDisconnect r s) = sn_emitted s @ [Status Disconnected]"
    unfolding p d by simp
  show "pe_promise (sn_peerObjs (peerDisconnect r s) ! r) = pe_promise (sn_peerObjs s ! r)"
    unfolding p d using assms(1) by (simp add: updPeerObj_def emit_def)
qed

lemma onPeerOpen_armed:
  assumes "r < length (sn_peerObjs s)" and "pe_open_l (sn_peerObjs s ! r)"
  shows "sn_peer (onPeerOpen r s) = Some r"
    and "pe_promise (sn_peerObjs (onPeerOpen r s) ! r) = resolve (pe_promise (sn_peerObjs s ! r))"
    and "pe_id (sn_peerObjs (onPeerOpen r s) ! r) = pe_id (sn_peerObjs s ! r)"
    and "r < length (sn_peerObjs (onPeerOpen r s))"
  using assms
  by (simp_all add: onPeerOpen_def listens_def Let_def updPeerObj_def emit_def)

text \<open>
  Claim C6. A call of \<open>connect\<close> leaves its promise pending and the status
  Connecting: the last two events it emits are Disconnected and Connecting, and on a
  host without a peer these are all. If the new peer then errors before it has opened,
  the promise is rejected with that error, Disconnected is emitted, the status is
  Disconnected and \<open>this.peer\<close> is unset; the error listener is gone, so a further
  error event changes nothing and the caller sees the error once; when the transport
  then disconnects the failed peer, the status stays Disconnected and the promise
  rejected. If instead the peer opens, Connected is emitted, followed by the peer list,
  the promise is resolved, \<open>this.peer\<close> is the new peer under the host's id, and the
  status, which was Connecting in between, is Connected.
\<close>

theorem connect_outcomes:
  "(let r = length (sn_peerObjs s);
        s1 = connect md s;
        sE = onPeerError r e s1;
        sD = peerDisconnect r sE;
        sO = onPeerOpen r s1
    in pe_promise (sn_peerObjs s1 ! r) = Pending
     \<and> (\<exists>es. emittedBetween s s1 = es @ [Status Disconnected, Status Connecting])
     \<and> (sn_peer s = None \<longrightarrow> emittedBetween s s1 = [Status Disconnected, Status Connecting])
     \<and> statusOf (sn_emitted s1) = Connecting
     \<and> pe_promise (sn_peerObjs sE ! r) = Rejected e
     \<and> emittedBetween s1 sE = [Status Disconnected]
     \<and> statusOf (sn_emitted sE) = Disconnected
     \<and> sn_peer sE = None
     \<and> onPeerError r e' sE = sE
     \<and> pe_promise (sn_peerObjs sD ! r) = Rejected e
     \<and> statusOf (sn_emitted sD) = Disconnected
     \<and> pe_promise (sn_peerObjs sO ! r) = Resolved
     \<and> emittedBetween s1 sO = [Status Connected, Peers (connectedPeers sO)]
     \<and> statusOf (sn_emitted sO) = Connected
     \<and> sn_peer sO = Some r
     \<and> pe_id (sn_peerObjs sO ! r) = Some (sn_id s))"
proof -
  define r where "r = length (sn_peerObjs s)"
  define s1 where "s1 = connect md s"
  define sE where "sE = onPeerError r e s1"
  have c: "r < length (sn_peerObjs s1)" "sn_peerObjs s1 ! r = newPeer (sn_id s)"
    "sn_peer s1 = None"
    by (simp_all add: r_def s1_def connect_fields)
  have a: "pe_error_l (sn_peerObjs s1 ! r)" "pe_open_l (sn_peerObjs s1 ! r)"
    "pe_promise (sn_peerObjs s1 ! r) = Pending" "pe_id (sn_peerObjs s1 ! r) = Some (sn_id s)"
    by (simp_all add: c newPeer_def)
  note E = onPeerError_armed [OF c(1) a(1) c(3), of e, folded sE_def]
  have aE: "\<not> pe_disconnected (sn_peerObjs sE ! r)" "pe_disconnected_l (sn_peerObjs sE ! r)"
    "\<not> pe_error_l (sn_peerObjs sE ! r)" "pe_promise (sn_peerObjs sE ! r) = Rejected e"
    by (simp_all add: E(3) c(2) newPeer_def reject_def)
  note D = peerDisconnect_armed [OF E(4) aE(1) aE(2) E(2)]
  note O = onPeerOpen_armed [OF c(1) a(2)]
  note OE = emitted_onPeerOpen [of r s1]
  have l: "listens pe_open_l r s1" by (simp add: listens_def c(1) a(2))
  obtain es where es: "sn_emitted (disconnect (s\<lparr>sn_metadata := Some md\<rparr>)) =
      sn_emitted s @ es @ [Status Disconnected]"
    using disconnect_emitted [of "s\<lparr>sn_metadata := Some md\<rparr>"] by auto
  have e1: "emittedBetween s s1 = es @ [Status Disconnected, Status Connecting]"
    by (simp add: s1_def connect_fields es)
  have e2: "sn_peer s = None \<longrightarrow> emittedBetween s s1 = [Status Disconnected, Status Connecting]"
    by (simp add: s1_def connect_fields disconnect_no_peer)
  have st1: "statusOf (sn_emitted s1) = Connecting"
    by (simp add: s1_def connect_fields)
  have f: "onPeerError r e' sE = sE"
    by (rule onPeerError_fired) (rule aE(3))
  have stE: "statusOf (sn_emitted sE) = Disconnected"
    by (simp add: E(1))
  have stD: "statusOf (sn_emitted (peerDisconnect r sE)) = Disconnected"
    by (simp add: D(1))
  have stO: "statusOf (sn_emitted (onPeerOpen r s1)) = Connected"
    using statusOf_append_Status [of "sn_emitted s1" Connected]
    by (simp add: OE [OF l] statusOf_def)
  show ?thesis
    unfolding Let_def r_def [symmetric] s1_def [symmetric] sE_def [symmetric]
    using e1 e2 st1 f stE stD stO
    by (simp add: a aE E D O OE [OF l] resolve_def reject_def)
qed

theorem connect_outcomes_witness:
  "sn_peer freshHost = None
   \<and> emittedBetween freshHost (connect mdHost freshHost) = [Status Disconnected, Status Connecting]
   \<and> pe_promise (sn_peerObjs (onPeerError 0 ''unavailable-id'' (connect mdHost freshHost)) ! 0)
     = Rejected ''unavailable-id''
   \<and> statusOf (sn_emitted (onPeerError 0 ''unavailable-id'' (connect mdHost freshHost))) = Disconnected
   \<and> pe_promise (sn_peerObjs (onPeerOpen 0 (connect mdHost freshHost)) ! 0) = Resolved
   \<and> statusOf (sn_emitted (onPeerOpen 0 (connect mdHost freshHost))) = Connected"
proof -
  have l: "length (sn_peerObjs freshHost) = 0" and p: "sn_peer freshHost = None"
    by (simp_all add: freshHost_def newServerNetwork_def)
  from connect_outcomes [of freshHost mdHost "''unavailable-id''" "''again''"] p
  show ?thesis unfolding Let_def l by blast
qed

subsection \<open>The channel peers\<close>

text \<open>
  What \<open>disconnect()\<close> does on the host that serves Bob and Alice: the transport
  resets the id of the peer and closes the two connections, \<open>removeConnection\<close> runs
  for each of them, and Disconnected is emitted by the nested and by the outer call.
\<close>

lemma disconnect_serving_host:
  "emittedBetween hostWithBoth (disconnect hostWithBoth) =
     [Peers [peerDataOf alice, hostGone], Leave ''Bob'', Peers [hostGone], Leave ''Alice'',
      Status Disconnected, Status Disconnected]"
  "sentBetween hostWithBoth (disconnect hostWithBoth) =
     [(alice, \<lparr>msg_channel = ''leave'',
               msg_data = Roster (peerDataOf bob) [peerDataOf alice, hostGone],
               msg_peer = None\<rparr>)]"
  "connectedPeers (disconnect hostWithBoth) = []"
  by code_simp+

text \<open>
  Claim C9, as stated, fails: the relay forwards whatever channel name a client put on
  its envelope. When Alice sends an envelope on the channel peers, the host writes it on
  Bob's connection.
\<close>

theorem peers_channel_counterexample:
  "(bob, peersEnvelope\<lparr>msg_peer := Some ''alice''\<rparr>) \<in> set (sn_wire (run peersRun (newServerNetwork ''host'')))
   \<and> ''peers'' \<in> wireChannels (run peersRun (newServerNetwork ''host''))"
  by code_simp

text \<open>
  Claim C9, amended. The host never originates an envelope on the channel peers: in
  every run from a new host, the channel of every envelope written on a connection is
  join, leave, the channel of an envelope that a client delivered, or the channel given
  to a call of \<open>send\<close>; so when no client and no call of \<open>send\<close> names the channel
  peers, no envelope on that channel is transmitted. The peer list itself is a local
  event computed from the host's own connection set and own identity: each of the three
  methods that emit it (the open listener of \<open>connect\<close>, the open listener of
  \<open>addConnection\<close>, and \<open>removeConnection\<close>) emits the list that
  \<open>connectedPeers()\<close> returns, and every peer list that any step emits is made of
  the peer data of connections of the host's set, followed by at most one entry with
  the host's own metadata.
\<close>

theorem peers_never_originated:
  "wireChannels (run es (newServerNetwork ident)) \<subseteq>
     {''join'', ''leave''} \<union> set (concat (map eventChannels es))
   \<and> (''peers'' \<notin> set (concat (map eventChannels es)) \<longrightarrow>
        ''peers'' \<notin> wireChannels (run es (newServerNetwork ident)))
   \<and> (\<forall>s r ps. Peers ps \<in> set (emittedBetween s (onPeerOpen r s)) \<longrightarrow>
        ps = connectedPeers (onPeerOpen r s))
   \<and> (\<forall>s c ps. Peers ps \<in> set (emittedBetween s (onConnectionOpen c s)) \<longrightarrow>
        ps = connectedPeers (onConnectionOpen c s))
   \<and> (\<forall>s c ps. Peers ps \<in> set (emittedBetween s (removeConnection c s)) \<longrightarrow>
        ps = connectedPeers (removeConnection c s))
   \<and> (\<forall>s e ps. Peers ps \<in> set (emittedBetween s (step e s)) \<longrightarrow>
        ownRoster (set (sn_connections s) \<union> set (sn_connections (step e s)))
          (sn_metadata (step e s)) ps)"
proof -
  have w: "wireChannels (newServerNetwork ident) = {}"
    by (simp add: wireChannels_def newServerNetwork_def)
  have sub: "wireChannels (run es (newServerNetwork ident)) \<subseteq>
     {''join'', ''leave''} \<union> set (concat (map eventChannels es))"
    using wireChannels_run [of es "newServerNetwork ident"] unfolding w by simp
  moreover from sub have "''peers'' \<notin> set (concat (map eventChannels es)) \<longrightarrow>
        ''peers'' \<notin> wireChannels (run es (newServerNetwork ident))"
    by auto
  ultimately show ?thesis
    using peers_onPeerOpen peers_onConnectionOpen peers_removeConnection peers_step by blast
qed

theorem peers_never_originated_witness:
  "''peers'' \<notin> set (concat (map eventChannels sampleRun))
   \<and> ''peers'' \<notin> wireChannels (run sampleRun (newServerNetwork ''host''))
   \<and> Peers [hostPeer]
        \<in> set (emittedBetween (connect mdHost freshHost) (onPeerOpen 0 (connect mdHost freshHost)))
   \<and> connectedPeers (onPeerOpen 0 (connect mdHost freshHost)) = [hostPeer]
   \<and> Peers [peerDataOf bob, peerDataOf alice, hostPeer]
        \<in> set (emittedBetween hostWithBob (onConnectionOpen alice hostWithBob))
   \<and> connectedPeers (onConnectionOpen alice hostWithBob) =
        [peerDataOf bob, peerDataOf alice, hostPeer]
   \<and> Peers [peerDataOf bob, hostPeer]
        \<in> set (emittedBetween hostWithBoth (removeConnection alice hostWithBoth))
   \<and> connectedPeers (removeConnection alice hostWithBoth) = [peerDataOf bob, hostPeer]
   \<and> Peers [peerDataOf alice, hostGone]
        \<in> set (emittedBetween hostWithBoth (step CallDisconnect hostWithBoth))
   \<and> ownRoster (set (sn_connections hostWithBoth) \<union>
                  set (sn_connections (step CallDisconnect hostWithBoth)))
        (sn_metadata (step CallDisconnect hostWithBoth)) [peerDataOf alice, hostGone]"
proof -
  have h1: "''peers'' \<notin> set (concat (map eventChannels sampleRun))"
    by code_simp
  have h2: "Peers [hostPeer]
        \<in> set (emittedBetween (connect mdHost freshHost) (onPeerOpen 0 (connect mdHost freshHost)))"
    by code_simp
  have h3: "Peers [peerDataOf bob, peerDataOf alice, hostPeer]
        \<in> set (emittedBetween hostWithBob (onConnectionOpen alice hostWithBob))"
    by code_simp
  have h4: "Peers [peerDataOf bob, hostPeer]
        \<in> set (emittedBetween hostWithBoth (removeConnection alice hostWithBoth))"
    by code_simp
  have h5: "Peers [peerDataOf alice, hostGone]
        \<in> set (emittedBetween hostWithBoth (step CallDisconnect hostWithBoth))"
    by code_simp
  from peers_never_originated [of sampleRun "''host''"] h1 h2 h3 h4 h5 show ?thesis
    by (metis (no_types))
qed

section \<open>Properties of the replication manager\<close>

lemma has_iff: "has k m \<longleftrightarrow> k \<in> fst ` set m"
  by (simp add: has_def)

lemma nth_update_field:
  assumes "\<And>x. h (f x) = h x"
  shows "h (xs[i := f (xs ! i)] ! j) = h (xs ! j)"
proof (cases "i < length xs")
  case True
  then show ?thesis by (cases "i = j") (simp_all add: assms)
next
  case False
  then have "length xs \<le> i" by simp
  then have "xs[i := f (xs ! i)] = xs" by (rule list_update_beyond)
  then show ?thesis by simp
qed

lemma destroy_nth:
  "en_uuid (gm_heap (destroy r' g) ! r) = en_uuid (gm_heap g ! r)"
  "en_network (gm_heap (destroy r' g) ! r) = en_network (gm_heap g ! r)"
  "en_lastUpdate (gm_heap (destroy r' g) ! r) = en_lastUpdate (gm_heap g ! r)"
  unfolding destroy_def
  using nth_update_field [of en_uuid "\<lambda>e. e\<lparr>en_destroyed := True, en_inScene := False\<rparr>" "gm_heap g" r' r]
    nth_update_field [of en_network "\<lambda>e. e\<lparr>en_destroyed := True, en_inScene := False\<rparr>" "gm_heap g" r' r]
    nth_update_field [of en_lastUpdate "\<lambda>e. e\<lparr>en_destroyed := True, en_inScene := False\<rparr>" "gm_heap g" r' r]
  by simp_all

lemma destroy_fields [simp]:
  "length (gm_heap (destroy r' g)) = length (gm_heap g)"
  "gm_entries (destroy r' g) = gm_entries g"
  by (simp_all add: destroy_def)

lemma tm_delete_entries [simp]:
  "gm_entries (tm_delete k g) = AList.delete k (gm_entries g)"
  by (simp add: tm_delete_def Let_def destroy_nth split: option.splits)

lemma tm_delete_heap_length [simp]:
  "length (gm_heap (tm_delete k g)) = length (gm_heap g)"
  by (simp add: tm_delete_def Let_def destroy_nth split: option.splits)

lemma tm_delete_heap_nth:
  "en_uuid (gm_heap (tm_delete k g) ! r) = en_uuid (gm_heap g ! r)"
  "en_network (gm_heap (tm_delete k g) ! r) = en_network (gm_heap g ! r)"
  "en_lastUpdate (gm_heap (tm_delete k g) ! r) = en_lastUpdate (gm_heap g ! r)"
  by (simp_all add: tm_delete_def Let_def destroy_nth split: option.splits)

lemma stale_tm_delete [simp]:
  "stale t delta (gm_heap (tm_delete k g) ! r) = stale t delta (gm_heap g ! r)"
  by (simp add: stale_def tm_delete_heap_nth)

lemma set_alist_delete: "set (AList.delete k al) = {kr \<in> set al. fst kr \<noteq> k}"
  by (auto simp: AList.delete_eq)

lemma wfTanks_tm_delete: "wfTanks g \<Longrightarrow> wfTanks (tm_delete k g)"
  unfolding wfTanks_def list_all_iff
  apply (intro conjI ballI)
    apply (simp add: distinct_delete)
   apply (simp add: set_alist_delete)
  apply (simp add: set_alist_delete tm_delete_heap_nth)
  done


lemma filter_alist_delete:
  "filter P (AList.delete k al) = filter (\<lambda>x. fst x \<noteq> k \<and> P x) al"
  by (induction al) (auto simp: AList.delete_eq)

lemma entry_unique:
  "distinct (map fst al) \<Longrightarrow> (k, r) \<in> set al \<Longrightarrow> (k, r') \<in> set al \<Longrightarrow> r' = r"
  by (rule eq_key_imp_eq_value)

lemma updateLoop_entries:
  assumes "wfTanks g" and "set ws \<subseteq> set (gm_entries g)" and "distinct (map fst ws)"
  shows "gm_entries (updateLoop now delta ws g) =
           filter (\<lambda>kr. \<not> (kr \<in> set ws \<and> stale (now (fst kr)) delta (gm_heap g ! snd kr))) (gm_entries g)"
  using assms
proof (induction ws arbitrary: g)
  case Nil
  then show ?case by simp
next
  case (Cons kr ws)
  obtain k r where kr: "kr = (k, r)" by (cases kr)
  from Cons.prems have mem: "(k, r) \<in> set (gm_entries g)" by (simp add: kr)
  then have hask: "has k (gm_entries g)" unfolding has_iff by (rule image_eqI [rotated]) simp
  from Cons.prems(1) mem have uu: "en_uuid (gm_heap g ! r) = k"
    unfolding wfTanks_def list_all_iff by fastforce
  from Cons.prems(3) have dws: "distinct (map fst ws)" and kws: "k \<notin> fst ` set ws"
    by (simp_all add: kr)
  from Cons.prems(1) have dg: "distinct (map fst (gm_entries g))" by (simp add: wfTanks_def)
  have uniq: "\<And>r'. (k, r') \<in> set (gm_entries g) \<Longrightarrow> r' = r"
    using dg mem by (rule entry_unique)
  show ?case
  proof (cases "stale (now k) delta (gm_heap g ! r)")
    case True
    let ?g = "tm_delete k g"
    have sub: "set ws \<subseteq> set (gm_entries ?g)"
    proof
      fix x assume x: "x \<in> set ws"
      with kws have "fst x \<noteq> k" by auto
      moreover from x Cons.prems(2) have "x \<in> set (gm_entries g)" by auto
      ultimately show "x \<in> set (gm_entries ?g)" by (simp add: set_alist_delete)
    qed
    have "gm_entries (updateLoop now delta (kr # ws) g) = gm_entries (updateLoop now delta ws ?g)"
      using True hask by (simp add: kr tm_remove_def uu)
    also have "\<dots> = filter (\<lambda>kr. \<not> (kr \<in> set ws \<and> stale (now (fst kr)) delta (gm_heap g ! snd kr)))
                        (gm_entries ?g)"
      using Cons.IH [OF wfTanks_tm_delete [OF Cons.prems(1)] sub dws] by simp
    also have "\<dots> = filter (\<lambda>kr'. \<not> (kr' \<in> set (kr # ws) \<and> stale (now (fst kr')) delta (gm_heap g ! snd kr')))
                        (gm_entries g)"
    proof -
      have "\<And>x. x \<in> set (gm_entries g) \<Longrightarrow>
          (fst x \<noteq> k \<and> \<not> (x \<in> set ws \<and> stale (now (fst x)) delta (gm_heap g ! snd x))) =
          (\<not> (x \<in> set (kr # ws) \<and> stale (now (fst x)) delta (gm_heap g ! snd x)))"
      proof -
        fix x assume x: "x \<in> set (gm_entries g)"
        show "(fst x \<noteq> k \<and> \<not> (x \<in> set ws \<and> stale (now (fst x)) delta (gm_heap g ! snd x))) =
          (\<not> (x \<in> set (kr # ws) \<and> stale (now (fst x)) delta (gm_heap g ! snd x)))"
        proof (cases "fst x = k")
          case True
          obtain a b where ab: "x = (a, b)" by (cases x)
          from True x uniq [of b] have "x = (k, r)" by (simp add: ab)
          then show ?thesis using \<open>stale (now k) delta (gm_heap g ! r)\<close> by (simp add: kr)
        next
          case False
          then show ?thesis by (auto simp: kr)
        qed
      qed
      then have "filter (\<lambda>x. fst x \<noteq> k \<and> \<not> (x \<in> set ws \<and> stale (now (fst x)) delta (gm_heap g ! snd x)))
                   (gm_entries g) =
                 filter (\<lambda>x. \<not> (x \<in> set (kr # ws) \<and> stale (now (fst x)) delta (gm_heap g ! snd x)))
                   (gm_entries g)"
        by (rule filter_cong [OF refl])
      then show ?thesis by (simp only: tm_delete_entries filter_alist_delete)
    qed
    finally show ?thesis .
  next
    case False
    have sub: "set ws \<subseteq> set (gm_entries g)" using Cons.prems(2) by simp
    have "gm_entries (updateLoop now delta (kr # ws) g) = gm_entries (updateLoop now delta ws g)"
      using False hask by (simp add: kr)
    also have "\<dots> = filter (\<lambda>kr. \<not> (kr \<in> set ws \<and> stale (now (fst kr)) delta (gm_heap g ! snd kr)))
                        (gm_entries g)"
      using Cons.IH [OF Cons.prems(1) sub dws] by simp
    also have "\<dots> = filter (\<lambda>kr'. \<not> (kr' \<in> set (kr # ws) \<and> stale (now (fst kr')) delta (gm_heap g ! snd kr')))
                        (gm_entries g)"
      using False by (intro filter_cong refl) (auto simp: kr)
    finally show ?thesis .
  qed
qed

lemma update_entries:
  assumes "wfTanks g"
  shows "gm_entries (update now delta g) =
           filter (\<lambda>kr. \<not> stale (now (fst kr)) delta (gm_heap g ! snd kr)) (gm_entries g)"
proof -
  from assms have d: "distinct (map fst (gm_entries g))" by (simp add: wfTanks_def)
  from updateLoop_entries [OF assms subset_refl d, of now delta]
  show ?thesis unfolding update_def by (simp cong: filter_cong)
qed

subsection \<open>Rounding\<close>

lemma roundHalfEven_of_int [simp]: "roundHalfEven (of_int j) = j"
  by (simp add: roundHalfEven_def)

lemma ulp_binade:
  assumes "2 ^ n \<le> \<bar>x\<bar>" and "\<bar>x\<bar> < 2 ^ Suc n"
  shows "ulp x = 2 ^ n / 2 ^ 52"
proof -
  have pos: "0 < \<bar>x\<bar>"
    using assms(1) by (smt (verit) zero_less_power)
  have "\<lfloor>log 2 \<bar>x\<bar>\<rfloor> = int n"
    using assms pos
    by (subst floor_log_eq_powr_iff) (simp_all add: powr_realpow powr_add)
  then show ?thesis
    by (simp add: ulp_def powr_diff powr_realpow)
qed

text \<open>The rounding of a positive number whose binade is known.\<close>

lemma fl_binade:
  assumes "2 ^ n \<le> x" and "x < 2 ^ Suc n"
  shows "fl x = of_int (roundHalfEven (x * 2 ^ 52 / 2 ^ n)) * 2 ^ n / 2 ^ 52"
proof -
  have pos: "0 < x"
    using assms(1) by (smt (verit) zero_less_power)
  then have u: "ulp x = 2 ^ n / 2 ^ 52"
    using assms ulp_binade [of n x] by simp
  show ?thesis
    using pos by (simp add: fl_def u)
qed

text \<open>A whole number below \<open>2^53\<close> in magnitude is a double.\<close>

lemma fl_whole:
  assumes "x \<in> \<int>" and "\<bar>x\<bar> < 2 ^ 53"
  shows "fl x = x"
proof (cases "x = 0")
  case True
  then show ?thesis by (simp add: fl_def)
next
  case False
  from assms(1) obtain m where m: "x = of_int m" by (auto elim: Ints_cases)
  with False have "m \<noteq> 0" by auto
  then have ge1: "1 \<le> \<bar>x\<bar>" unfolding m by (simp flip: of_int_abs)
  define n where "n = nat \<lfloor>log 2 \<bar>x\<bar>\<rfloor>"
  have nn: "0 \<le> \<lfloor>log 2 \<bar>x\<bar>\<rfloor>" using ge1 by simp
  have fl: "\<lfloor>log 2 \<bar>x\<bar>\<rfloor> = int n" using nn by (simp add: n_def)
  have b: "2 ^ n \<le> \<bar>x\<bar>" "\<bar>x\<bar> < 2 ^ Suc n"
    using floor_log_eq_powr_iff [of "\<bar>x\<bar>" 2 "int n"] fl ge1 False
    by (auto simp: powr_realpow powr_add ac_simps)
  have n52: "n \<le> 52"
  proof (rule ccontr)
    assume "\<not> n \<le> 52"
    then have "53 \<le> n" by simp
    then have "(2::real) ^ 53 \<le> 2 ^ n" by (rule power_increasing) simp
    with b(1) assms(2) show False by simp
  qed
  have u: "ulp x = 2 ^ n / 2 ^ 52" using b by (rule ulp_binade)
  have p: "(2::real) ^ 52 = 2 ^ n * 2 ^ (52 - n)"
    using n52 by (simp flip: power_add)
  have s: "\<bar>x\<bar> / ulp x = \<bar>x\<bar> * 2 ^ (52 - n)"
    unfolding u p by simp
  also have "\<dots> = of_int (\<bar>m\<bar> * 2 ^ (52 - n))"
    by (simp add: m)
  finally have "roundHalfEven (\<bar>x\<bar> / ulp x) = \<bar>m\<bar> * 2 ^ (52 - n)"
    by (simp only: roundHalfEven_of_int)
  then have "of_int (roundHalfEven (\<bar>x\<bar> / ulp x)) = \<bar>x\<bar> * 2 ^ (52 - n)"
    by (simp add: m)
  then have "of_int (roundHalfEven (\<bar>x\<bar> / ulp x)) * ulp x = \<bar>x\<bar>"
    unfolding u p by simp
  then show ?thesis
    using False by (simp add: fl_def sgn_real_def)
qed

lemma fadd_whole:
  assumes "x \<in> \<int>" and "y \<in> \<int>" and "\<bar>x\<bar> + \<bar>y\<bar> < 2 ^ 53"
  shows "fadd x y = x + y"
  unfolding fadd_def using assms by (intro fl_whole) auto

lemma stale_sum_whole:
  assumes "l \<in> \<int>" and "d \<in> \<int>" and "\<bar>l\<bar> + (5000 + \<bar>d\<bar>) < 2 ^ 53"
  shows "fadd l (fadd 5000 d) = l + (5000 + d)"
proof -
  have 1: "fadd 5000 d = 5000 + d"
    using assms by (intro fadd_whole) auto
  have "fadd l (5000 + d) = l + (5000 + d)"
    using assms by (intro fadd_whole) auto
  with 1 show ?thesis by simp
qed

text \<open>Two sums at a timestamp of the year 2023: the first is exact, the second rounds
  up to the next whole millisecond.\<close>

lemma fadd_sample:
  "fadd 5000 (32767 / 32768) = 5000 + 32767 / 32768"
  "fadd 1700000000000 (5000 + 32767 / 32768) = 1700000005001"
  unfolding fadd_def
  by (subst fl_binade [of 12], simp_all add: roundHalfEven_def)
    (subst fl_binade [of 40], simp_all add: roundHalfEven_def)

subsection \<open>Staleness eviction\<close>

lemma has_update:
  assumes "wfTanks g" and "(k, r) \<in> set (gm_entries g)"
  shows "has k (gm_entries (update now delta g)) \<longleftrightarrow> \<not> stale (now k) delta (gm_heap g ! r)"
proof -
  from assms have d: "distinct (map fst (gm_entries g))" by (simp add: wfTanks_def)
  have uniq: "\<And>r'. (k, r') \<in> set (gm_entries g) \<Longrightarrow> r' = r"
    using d assms(2) by (rule entry_unique)
  show ?thesis
  proof
    assume "has k (gm_entries (update now delta g))"
    then obtain r' where "(k, r') \<in> set (gm_entries g)" "\<not> stale (now k) delta (gm_heap g ! r')"
      unfolding update_entries [OF assms(1)] has_iff by auto
    with uniq show "\<not> stale (now k) delta (gm_heap g ! r)" by auto
  next
    assume "\<not> stale (now k) delta (gm_heap g ! r)"
    with assms(2) have "(k, r) \<in> set (gm_entries (update now delta g))"
      unfolding update_entries [OF assms(1)] by simp
    then show "has k (gm_entries (update now delta g))"
      unfolding has_iff by (rule image_eqI [rotated]) simp
  qed
qed

lemma wfTanks_lateGame: "wfTanks lateGame" "(''bob'', 1) \<in> set (gm_entries lateGame)"
  "en_network (gm_heap lateGame ! 1)" "en_lastUpdate (gm_heap lateGame ! 1) = 1700000000000"
  by (simp_all add: wfTanks_def lateGame_def sampleGame_def)




lemma alist_update_fresh: "k \<notin> fst ` set al \<Longrightarrow> AList.update k v al = al @ [(k, v)]"
  by (induction al) auto

lemma map_of_None_iff: "map_of al k = None \<longleftrightarrow> k \<notin> fst ` set al"
  by (simp add: map_of_eq_None_iff)

lemma applyPending_existing:
  assumes "getNetwork k g = Some r"
  shows "applyPending now (k, d) g =
           g\<lparr>gm_heap := (gm_heap g)[r := (gm_heap g ! r)\<lparr>en_lastState := Some d, en_lastUpdate := now\<rparr>]\<rparr>"
  using assms by (simp add: applyPending_def networkUpdate_def)

lemma applyPending_new:
  assumes "getNetwork k g = None" and "\<not> has k (gm_entries g)" and "sp_uuid d = k"
  shows "applyPending now (k, d) g =
           g\<lparr>gm_heap := gm_heap g @ [freshProxy now d],
             gm_networkTanks := gm_networkTanks g @ [(k, length (gm_heap g))],
             gm_tmEvents := gm_tmEvents g @ [Add (length (gm_heap g))],
             gm_entries := gm_entries g @ [(k, length (gm_heap g))]\<rparr>"
proof -
  from assms(1) have n: "k \<notin> fst ` set (gm_networkTanks g)"
    by (simp add: getNetwork_def map_of_None_iff)
  from assms(2) have e: "k \<notin> fst ` set (gm_entries g)" by (simp add: has_def)
  show ?thesis
    using assms
    by (simp add: applyPending_def Let_def tm_add_def tm_set_def addToScene_def networkUpdate_def
        newTankNetwork_def freshProxy_def alist_update_fresh [OF n] alist_update_fresh [OF e])
qed


lemma netInv_entry:
  assumes "netInv g" and "(k, r) \<in> set (gm_entries g)"
  shows "r < length (gm_heap g)" and "en_uuid (gm_heap g ! r) = k"
    and "map_of (gm_entries g) k = Some r"
  using assms unfolding netInv_def wfTanks_def list_all_iff by auto

lemma netInv_network:
  assumes "netInv g" and "getNetwork k g = Some r"
  shows "(k, r) \<in> set (gm_entries g)" and "en_network (gm_heap g ! r)"
proof -
  from assms(2) have "(k, r) \<in> set (gm_networkTanks g)"
    unfolding getNetwork_def by (rule map_of_SomeD)
  with assms(1) show "(k, r) \<in> set (gm_entries g)" and "en_network (gm_heap g ! r)"
    unfolding netInv_def by auto
qed

lemma netInv_getNetwork:
  assumes "netInv g" and "(k, r) \<in> set (gm_entries g)" and "en_network (gm_heap g ! r)"
  shows "getNetwork k g = Some r"
proof -
  from assms have m: "(k, r) \<in> set (gm_networkTanks g)" unfolding netInv_def by auto
  from assms(1) have "distinct (map fst (gm_entries g))" unfolding netInv_def wfTanks_def by simp
  then have "distinct (map fst (gm_networkTanks g))"
    using assms(1) unfolding netInv_def by (simp add: distinct_map_filter)
  with m show ?thesis unfolding getNetwork_def by simp
qed

lemma not_has_of_None:
  assumes "netInv g" and "proxyOnly k g" and "getNetwork k g = None"
  shows "\<not> has k (gm_entries g)"
proof
  assume "has k (gm_entries g)"
  then obtain r where r: "(k, r) \<in> set (gm_entries g)" unfolding has_def by auto
  with assms(2) have "en_network (gm_heap g ! r)" unfolding proxyOnly_def by blast
  from netInv_getNetwork [OF assms(1) r this] assms(3) show False by simp
qed


lemma map_of_append_fresh:
  "k \<notin> fst ` set al \<Longrightarrow> map_of (al @ [(k, v)]) k' = (if k' = k then Some v else map_of al k')"
  by (induction al) auto

lemma applyPending_step:
  fixes now :: real and g :: "'p Game" and d :: "'p Snapshot"
  assumes inv: "netInv g" and po: "proxyOnly k g" and uu: "sp_uuid d = k"
  defines "g' \<equiv> applyPending now (k, d) g"
  shows "netInv g' \<and> applied now g g' (k, d) \<and>
      (\<forall>k'. k' \<noteq> k \<longrightarrow> getNetwork k' g' = getNetwork k' g) \<and>
      (\<forall>k'. k' \<noteq> k \<longrightarrow> map_of (gm_entries g') k' = map_of (gm_entries g) k') \<and>
      (\<forall>r'. r' < length (gm_heap g) \<longrightarrow> en_uuid (gm_heap g ! r') \<noteq> k \<longrightarrow>
           gm_heap g' ! r' = gm_heap g ! r') \<and>
      length (gm_heap g) \<le> length (gm_heap g') \<and>
      (\<forall>r'. r' < length (gm_heap g) \<longrightarrow>
           en_network (gm_heap g' ! r') = en_network (gm_heap g ! r') \<and>
           en_uuid (gm_heap g' ! r') = en_uuid (gm_heap g ! r')) \<and>
      (\<forall>kr. kr \<in> set (gm_entries g') \<longrightarrow>
           kr \<in> set (gm_entries g) \<or> en_network (gm_heap g' ! snd kr)) \<and>
      gm_player g' = gm_player g \<and> gm_pending g' = gm_pending g \<and> gm_outbox g' = gm_outbox g"
proof (cases "getNetwork k g")
    case (Some r)
    let ?f = "\<lambda>e. e\<lparr>en_lastState := Some d, en_lastUpdate := now\<rparr>"
    have g': "g' = g\<lparr>gm_heap := (gm_heap g)[r := ?f (gm_heap g ! r)]\<rparr>"
      unfolding g'_def by (rule applyPending_existing [OF Some])
    note e = netInv_network [OF inv Some]
    note f = netInv_entry [OF inv e(1)]
    have un: "\<And>j. en_uuid (gm_heap g' ! j) = en_uuid (gm_heap g ! j)"
      unfolding g' using nth_update_field [of en_uuid ?f] by simp
    have nn: "\<And>j. en_network (gm_heap g' ! j) = en_network (gm_heap g ! j)"
      unfolding g' using nth_update_field [of en_network ?f] by simp
    have same: "gm_entries g' = gm_entries g" "gm_networkTanks g' = gm_networkTanks g"
      "length (gm_heap g') = length (gm_heap g)" "gm_player g' = gm_player g"
      "gm_pending g' = gm_pending g" "gm_outbox g' = gm_outbox g"
      by (simp_all add: g')
    have i: "netInv g'"
      using inv unfolding netInv_def wfTanks_def by (simp add: same un nn)
    have hr: "gm_heap g' ! r = ?f (gm_heap g ! r)" using f(1) by (simp add: g')
    have a: "applied now g g' (k, d)"
      unfolding applied_def using Some e f by (simp add: getNetwork_def same hr)
    have o: "\<And>r'. r' < length (gm_heap g) \<Longrightarrow> en_uuid (gm_heap g ! r') \<noteq> k \<Longrightarrow>
           gm_heap g' ! r' = gm_heap g ! r'"
    proof -
      fix r' assume "r' < length (gm_heap g)" and "en_uuid (gm_heap g ! r') \<noteq> k"
      with f(2) have "r \<noteq> r'" by auto
      then show "gm_heap g' ! r' = gm_heap g ! r'" by (simp add: g')
    qed
    show ?thesis
      using i a o by (simp add: same un nn getNetwork_def)
  next
    case None
    let ?r = "length (gm_heap g)"
    note nh = not_has_of_None [OF inv po None]
    then have ke: "k \<notin> fst ` set (gm_entries g)" by (simp add: has_def)
    from None have kn: "k \<notin> fst ` set (gm_networkTanks g)"
      by (simp add: getNetwork_def map_of_None_iff)
    have g': "g' = g\<lparr>gm_heap := gm_heap g @ [freshProxy now d],
             gm_networkTanks := gm_networkTanks g @ [(k, ?r)],
             gm_tmEvents := gm_tmEvents g @ [Add ?r],
             gm_entries := gm_entries g @ [(k, ?r)]\<rparr>"
      unfolding g'_def by (rule applyPending_new [OF None nh uu])
    have old: "\<And>j. j < ?r \<Longrightarrow> gm_heap g' ! j = gm_heap g ! j"
      by (simp add: g' nth_append)
    have new: "gm_heap g' ! ?r = freshProxy now d" by (simp add: g')
    have fields: "gm_entries g' = gm_entries g @ [(k, ?r)]"
      "gm_networkTanks g' = gm_networkTanks g @ [(k, ?r)]"
      "length (gm_heap g') = Suc ?r" "gm_player g' = gm_player g"
      "gm_pending g' = gm_pending g" "gm_outbox g' = gm_outbox g"
      by (simp_all add: g')
    have refs: "\<And>kr. kr \<in> set (gm_entries g) \<Longrightarrow> snd kr < ?r"
      using inv unfolding netInv_def wfTanks_def list_all_iff by blast
    have flt: "filter (\<lambda>kr. en_network (gm_heap g' ! snd kr)) (gm_entries g) =
               filter (\<lambda>kr. en_network (gm_heap g ! snd kr)) (gm_entries g)"
      by (rule filter_cong [OF refl]) (simp add: old refs)
    have i: "netInv g'"
      unfolding netInv_def wfTanks_def list_all_iff
    proof (intro conjI ballI)
      from inv have "distinct (map fst (gm_entries g))" unfolding netInv_def wfTanks_def by simp
      with ke show "distinct (map fst (gm_entries g'))" by (simp add: fields)
    next
      fix kr assume "kr \<in> set (gm_entries g')"
      then consider "kr \<in> set (gm_entries g)" | "kr = (k, ?r)" by (auto simp: fields)
      then show "snd kr < length (gm_heap g')"
      proof cases
        case 1
        from refs [OF 1] show ?thesis by (simp add: fields)
      next
        case 2
        then show ?thesis by (simp add: fields)
      qed
    next
      fix kr assume "kr \<in> set (gm_entries g')"
      then consider "kr \<in> set (gm_entries g)" | "kr = (k, ?r)" by (auto simp: fields)
      then show "en_uuid (gm_heap g' ! snd kr) = fst kr"
      proof cases
        case 1
        obtain a b where ab: "kr = (a, b)" by (cases kr)
        from netInv_entry(2) [OF inv 1 [unfolded ab]] refs [OF 1] show ?thesis
          by (simp add: ab old)
      next
        case 2
        then show ?thesis by (simp add: new freshProxy_def uu)
      qed
    next
      from inv have "gm_networkTanks g = filter (\<lambda>kr. en_network (gm_heap g ! snd kr)) (gm_entries g)"
        unfolding netInv_def by simp
      then show "gm_networkTanks g' = filter (\<lambda>kr. en_network (gm_heap g' ! snd kr)) (gm_entries g')"
        by (simp add: fields flt new freshProxy_def)
    qed
    have gn: "\<And>k'. getNetwork k' g' = (if k' = k then Some ?r else getNetwork k' g)"
      unfolding getNetwork_def fields by (rule map_of_append_fresh [OF kn])
    have ge: "\<And>k'. map_of (gm_entries g') k' = (if k' = k then Some ?r else map_of (gm_entries g) k')"
      unfolding fields by (rule map_of_append_fresh [OF ke])
    have a: "applied now g g' (k, d)"
      unfolding applied_def by (simp add: gn ge fields(3) new freshProxy_def uu None)
    have en: "\<And>kr. kr \<in> set (gm_entries g') \<Longrightarrow>
           kr \<in> set (gm_entries g) \<or> en_network (gm_heap g' ! snd kr)"
      by (auto simp: fields(1) new freshProxy_def)
    show ?thesis
      using i a en by (simp add: gn ge fields(3-6) old)
qed


lemma frame_refl: "frame K g g"
  by (simp add: frame_def)

lemma frame_step:
  assumes "netInv g" and "proxyOnly k g" and "sp_uuid d = k"
  shows "frame {k} g (applyPending now (k, d) g)"
  using applyPending_step [OF assms, of now] unfolding frame_def by simp

lemma frame_trans:
  assumes f1: "frame K1 g g1" and f2: "frame K2 g1 g2" and inv: "netInv g1"
  shows "frame (K1 \<union> K2) g g2"
  unfolding frame_def
proof (intro conjI allI impI)
  from f1 f2 show "length (gm_heap g) \<le> length (gm_heap g2)" unfolding frame_def by linarith
next
  fix k assume "k \<notin> K1 \<union> K2"
  with f1 f2 show "getNetwork k g2 = getNetwork k g" unfolding frame_def by simp
next
  fix k assume "k \<notin> K1 \<union> K2"
  with f1 f2 show "map_of (gm_entries g2) k = map_of (gm_entries g) k" unfolding frame_def by simp
next
  fix r assume r: "r < length (gm_heap g)"
  with f1 have r1: "r < length (gm_heap g1)" unfolding frame_def by linarith
  from f1 r f2 r1 show "en_network (gm_heap g2 ! r) = en_network (gm_heap g ! r)"
    unfolding frame_def by simp
next
  fix r assume r: "r < length (gm_heap g)"
  with f1 have r1: "r < length (gm_heap g1)" unfolding frame_def by linarith
  from f1 r f2 r1 show "en_uuid (gm_heap g2 ! r) = en_uuid (gm_heap g ! r)"
    unfolding frame_def by simp
next
  fix r assume r: "r < length (gm_heap g)" and k: "en_uuid (gm_heap g ! r) \<notin> K1 \<union> K2"
  with f1 have r1: "r < length (gm_heap g1)" unfolding frame_def by linarith
  from f1 r k have e1: "gm_heap g1 ! r = gm_heap g ! r" unfolding frame_def by simp
  with k have "en_uuid (gm_heap g1 ! r) \<notin> K2" by simp
  with f2 r1 have "gm_heap g2 ! r = gm_heap g1 ! r" unfolding frame_def by simp
  with e1 show "gm_heap g2 ! r = gm_heap g ! r" by simp
next
  fix kr assume "kr \<in> set (gm_entries g2)"
  with f2 consider "kr \<in> set (gm_entries g1)" | "en_network (gm_heap g2 ! snd kr)"
    unfolding frame_def by blast
  then show "kr \<in> set (gm_entries g) \<or> en_network (gm_heap g2 ! snd kr)"
  proof cases
    case 1
    obtain a b where ab: "kr = (a, b)" by (cases kr)
    from netInv_entry(1) [OF inv 1 [unfolded ab]] have b: "b < length (gm_heap g1)" .
    from f1 1 consider "kr \<in> set (gm_entries g)" | "en_network (gm_heap g1 ! snd kr)"
      unfolding frame_def by blast
    then show ?thesis
    proof cases
      case 1
      then show ?thesis by simp
    next
      case 2
      with f2 b show ?thesis unfolding frame_def by (simp add: ab)
    qed
  next
    case 2
    then show ?thesis by simp
  qed
next
  from f1 f2 show "gm_player g2 = gm_player g" unfolding frame_def by simp
next
  from f1 f2 show "gm_pending g2 = gm_pending g" unfolding frame_def by simp
next
  from f1 f2 show "gm_outbox g2 = gm_outbox g" unfolding frame_def by simp
qed

lemma proxyOnly_frame:
  assumes "frame K g g'" and "netInv g" and "proxyOnly k g"
  shows "proxyOnly k g'"
  unfolding proxyOnly_def
proof (intro allI impI)
  fix r assume m: "(k, r) \<in> set (gm_entries g')"
  with assms(1) consider "(k, r) \<in> set (gm_entries g)" | "en_network (gm_heap g' ! r)"
    unfolding frame_def by force
  then show "en_network (gm_heap g' ! r)"
  proof cases
    case 1
    from netInv_entry(1) [OF assms(2) 1] have "r < length (gm_heap g)" .
    moreover from assms(3) 1 have "en_network (gm_heap g ! r)" unfolding proxyOnly_def by blast
    ultimately show ?thesis using assms(1) unfolding frame_def by simp
  next
    case 2
    then show ?thesis .
  qed
qed

lemma applied_rebase:
  assumes "applied now g1 gF kd" and "getNetwork (fst kd) g1 = getNetwork (fst kd) g"
    and "length (gm_heap g) \<le> length (gm_heap g1)"
  shows "applied now g gF kd"
  using assms unfolding applied_def by (auto split: option.splits)

lemma applied_frame:
  assumes a: "applied now g g1 kd" and f: "frame K g1 gF" and k: "fst kd \<notin> K"
  shows "applied now g gF kd"
proof -
  from a obtain r where r: "getNetwork (fst kd) g1 = Some r"
    unfolding applied_def by (auto split: option.splits)
  with a have p: "map_of (gm_entries g1) (fst kd) = Some r" "r < length (gm_heap g1)"
    "en_network (gm_heap g1 ! r)" "en_uuid (gm_heap g1 ! r) = fst kd"
    "en_lastState (gm_heap g1 ! r) = Some (snd kd)" "en_lastUpdate (gm_heap g1 ! r) = now"
    "(case getNetwork (fst kd) g of Some r0 \<Rightarrow> r = r0 | None \<Rightarrow> length (gm_heap g) \<le> r)"
    unfolding applied_def by simp_all
  from f k r p(1) have q: "getNetwork (fst kd) gF = Some r" "map_of (gm_entries gF) (fst kd) = Some r"
    unfolding frame_def by simp_all
  from f p(2) have l: "r < length (gm_heap gF)" unfolding frame_def by linarith
  from f p(2) p(4) k have h: "gm_heap gF ! r = gm_heap g1 ! r" unfolding frame_def by simp
  show ?thesis unfolding applied_def using q l p by (simp add: h)
qed

lemma applyAll_loop:
  assumes "netInv g" and "distinct (map fst kds)"
    and "\<forall>kd \<in> set kds. sp_uuid (snd kd) = fst kd \<and> proxyOnly (fst kd) g"
  shows "netInv (applyAll now kds g) \<and> frame (fst ` set kds) g (applyAll now kds g) \<and>
         (\<forall>kd \<in> set kds. applied now g (applyAll now kds g) kd)"
  using assms
proof (induction kds arbitrary: g)
  case Nil
  then show ?case by (simp add: frame_refl)
next
  case (Cons kd kds)
  obtain k d where kd: "kd = (k, d)" by (cases kd)
  let ?g1 = "applyPending now (k, d) g"
  let ?gF = "applyAll now kds ?g1"
  from Cons.prems(3) have u: "sp_uuid d = k" and po: "proxyOnly k g" by (simp_all add: kd)
  note st = applyPending_step [OF Cons.prems(1) po u, of now]
  from st have i1: "netInv ?g1" and a1: "applied now g ?g1 (k, d)" by simp_all
  note f1 = frame_step [OF Cons.prems(1) po u, of now]
  from Cons.prems(2) have d: "distinct (map fst kds)" and kn: "k \<notin> fst ` set kds"
    by (simp_all add: kd)
  have c: "\<forall>kd \<in> set kds. sp_uuid (snd kd) = fst kd \<and> proxyOnly (fst kd) ?g1"
    using Cons.prems(3) proxyOnly_frame [OF f1 Cons.prems(1)] by simp
  from Cons.IH [OF i1 d c]
  have iF: "netInv ?gF" and fF: "frame (fst ` set kds) ?g1 ?gF"
    and aF: "\<forall>kd \<in> set kds. applied now ?g1 ?gF kd" by simp_all
  have fr: "frame (fst ` set (kd # kds)) g ?gF"
    using frame_trans [OF f1 fF i1] by (simp add: kd)
  have hd: "applied now g ?gF (k, d)"
    using applied_frame [OF a1 fF] kn by simp
  have tl: "\<forall>x \<in> set kds. applied now g ?gF x"
  proof
    fix x assume x: "x \<in> set kds"
    with kn have "fst x \<noteq> k" by auto
    with f1 have "getNetwork (fst x) ?g1 = getNetwork (fst x) g" unfolding frame_def by simp
    moreover from f1 have "length (gm_heap g) \<le> length (gm_heap ?g1)" unfolding frame_def by simp
    ultimately show "applied now g ?gF x" using aF x by (blast intro: applied_rebase)
  qed
  show ?case using iF fr hd tl by (simp add: kd)
qed


lemma set_alist_update:
  "x \<in> set (AList.update k v al) \<Longrightarrow> x = (k, v) \<or> x \<in> set al"
  by (induction al) (auto split: if_splits)

lemma wfGame_netInv: "wfGame g \<Longrightarrow> netInv g"
  by (simp add: wfGame_def netInv_def)

lemma wfGame_proxyOnly:
  assumes w: "wfGame g" and p: "gm_player g = Some p" and kd: "kd \<in> set (gm_pending g)"
  shows "sp_uuid (snd kd) = fst kd" and "proxyOnly (fst kd) g"
proof -
  from w kd show "sp_uuid (snd kd) = fst kd" unfolding wfGame_def list_all_iff by blast
  from w p kd have ne: "fst kd \<noteq> en_uuid (gm_heap g ! p)"
    unfolding wfGame_def list_all_iff by auto
  show "proxyOnly (fst kd) g"
    unfolding proxyOnly_def
  proof (intro allI impI)
    fix r assume m: "(fst kd, r) \<in> set (gm_entries g)"
    from netInv_entry(2) [OF wfGame_netInv [OF w] m] have u: "en_uuid (gm_heap g ! r) = fst kd" .
    from w m have "en_network (gm_heap g ! r) \<or> gm_player g = Some r"
      unfolding wfGame_def list_all_iff by force
    with p u ne show "en_network (gm_heap g ! r)" by auto
  qed
qed

lemma outbox_irrelevant [simp]:
  "netInv (g\<lparr>gm_outbox := x\<rparr>) = netInv g"
  "proxyOnly k (g\<lparr>gm_outbox := x\<rparr>) = proxyOnly k g"
  "applied now (g\<lparr>gm_outbox := x\<rparr>) g' kd = applied now g g' kd"
  "applied now g (g'\<lparr>gm_pending := y\<rparr>) kd = applied now g g' kd"
  by (simp_all add: netInv_def wfTanks_def proxyOnly_def applied_def getNetwork_def
      cong: option.case_cong)

lemma wfGame_onUpdate:
  assumes "wfGame g"
  shows "wfGame (onUpdate d g)"
proof (cases "gm_player g")
  case None
  with assms show ?thesis by (simp add: onUpdate_def)
next
  case (Some p)
  show ?thesis
  proof (cases "sp_uuid d = en_uuid (gm_heap g ! p)")
    case True
    with Some assms show ?thesis by (simp add: onUpdate_def)
  next
    case False
    have g': "onUpdate d g = g\<lparr>gm_pending := AList.update (sp_uuid d) d (gm_pending g)\<rparr>"
      using Some False by (simp add: onUpdate_def)
    have sub: "\<And>x. x \<in> set (AList.update (sp_uuid d) d (gm_pending g)) \<Longrightarrow>
                 x = (sp_uuid d, d) \<or> x \<in> set (gm_pending g)"
      by (rule set_alist_update)
    let ?al = "AList.update (sp_uuid d) d (gm_pending g)"
    from assms have a: "wfTanks g"
      "gm_networkTanks g = filter (\<lambda>kr. en_network (gm_heap g ! snd kr)) (gm_entries g)"
      "distinct (map fst (gm_pending g))"
      "\<And>x. x \<in> set (gm_pending g) \<Longrightarrow> sp_uuid (snd x) = fst x"
      "p < length (gm_heap g)"
      "\<And>x. x \<in> set (gm_pending g) \<Longrightarrow> fst x \<noteq> en_uuid (gm_heap g ! p)"
      "list_all (\<lambda>kr. en_network (gm_heap g ! snd kr) \<or> gm_player g = Some (snd kr)) (gm_entries g)"
      unfolding wfGame_def list_all_iff by (simp_all add: Some)
    have b1: "distinct (map fst ?al)" using a(3) by (rule distinct_update)
    have b2: "list_all (\<lambda>kd. sp_uuid (snd kd) = fst kd) ?al"
      unfolding list_all_iff using a(4) by (auto dest!: sub)
    have b3: "list_all (\<lambda>kd. fst kd \<noteq> en_uuid (gm_heap g ! p)) ?al"
      unfolding list_all_iff using a(6) False by (auto dest!: sub)
    have w: "wfTanks (g\<lparr>gm_pending := ?al\<rparr>)" using a(1) by (simp add: wfTanks_def)
    show ?thesis
      unfolding g' wfGame_def using w a(2) a(5) a(7) b1 b2 b3 by (simp add: Some)
  qed
qed

lemma frame_entries:
  assumes "frame K g g'" and "kr \<in> set (gm_entries g')"
  shows "kr \<in> set (gm_entries g) \<or> en_network (gm_heap g' ! snd kr)"
proof -
  from assms(1) have "\<forall>kr. kr \<in> set (gm_entries g') \<longrightarrow>
           kr \<in> set (gm_entries g) \<or> en_network (gm_heap g' ! snd kr)"
    unfolding frame_def by simp
  with assms(2) show ?thesis by blast
qed

lemma frame_network:
  assumes "frame K g g'" and "r < length (gm_heap g)"
  shows "en_network (gm_heap g' ! r) = en_network (gm_heap g ! r)"
  using assms unfolding frame_def by simp

lemma wfGame_local:
  assumes "wfGame g" and "(a, b) \<in> set (gm_entries g)"
  shows "en_network (gm_heap g ! b) \<or> gm_player g = Some b"
proof -
  from assms(1) have "\<forall>kr \<in> set (gm_entries g).
      en_network (gm_heap g ! snd kr) \<or> gm_player g = Some (snd kr)"
    unfolding wfGame_def list_all_iff by simp
  from bspec [OF this assms(2)] show ?thesis by simp
qed

lemma tick_applies:
  assumes w: "wfGame g" and p: "gm_player g = Some p"
  shows "\<exists>g'. tick now exported g = Inr g' \<and> gm_pending g' = [] \<and> wfGame g' \<and>
           (\<forall>kd \<in> set (gm_pending g). applied now g g' kd)"
proof -
  let ?g1 = "g\<lparr>gm_outbox := gm_outbox g @ [(''update'', exported\<lparr>sp_uuid := en_uuid (gm_heap g ! p)\<rparr>)]\<rparr>"
  let ?gF = "applyAll now (gm_pending g) ?g1"
  have t: "tick now exported g = Inr (?gF\<lparr>gm_pending := []\<rparr>)"
    using p by (simp add: tick_def Let_def)
  have i1: "netInv ?g1" using wfGame_netInv [OF w] by simp
  from w have d: "distinct (map fst (gm_pending g))" by (simp add: wfGame_def)
  have c: "\<forall>kd \<in> set (gm_pending g). sp_uuid (snd kd) = fst kd \<and> proxyOnly (fst kd) ?g1"
    using wfGame_proxyOnly [OF w p] by simp
  from applyAll_loop [OF i1 d c, of now]
  have iF: "netInv ?gF" and fF: "frame (fst ` set (gm_pending g)) ?g1 ?gF"
    and aF: "\<forall>kd \<in> set (gm_pending g). applied now g ?gF kd" by simp_all
  from fF have pl: "gm_player ?gF = Some p" and len: "length (gm_heap g) \<le> length (gm_heap ?gF)"
    unfolding frame_def by (simp_all add: p)
  from w p have pv: "p < length (gm_heap g)" by (simp add: wfGame_def)
  have lo: "\<And>kr. kr \<in> set (gm_entries ?gF) \<Longrightarrow>
              en_network (gm_heap ?gF ! snd kr) \<or> gm_player ?gF = Some (snd kr)"
  proof -
    fix kr assume m: "kr \<in> set (gm_entries ?gF)"
    obtain a b where ab: "kr = (a, b)" by (cases kr)
    from frame_entries [OF fF m]
    have "(a, b) \<in> set (gm_entries g) \<or> en_network (gm_heap ?gF ! b)" by (simp add: ab)
    then show "en_network (gm_heap ?gF ! snd kr) \<or> gm_player ?gF = Some (snd kr)"
    proof
      assume 1: "(a, b) \<in> set (gm_entries g)"
      from netInv_entry(1) [OF wfGame_netInv [OF w] 1] have b: "b < length (gm_heap g)" .
      then have "b < length (gm_heap ?g1)" by simp
      from frame_network [OF fF this]
      have e: "en_network (gm_heap ?gF ! b) = en_network (gm_heap g ! b)" by simp
      from wfGame_local [OF w 1] show ?thesis unfolding ab snd_conv e pl p .
    next
      assume "en_network (gm_heap ?gF ! b)"
      then show ?thesis by (simp add: ab)
    qed
  qed
  have w1: "wfTanks (?gF\<lparr>gm_pending := []\<rparr>)"
    using iF unfolding netInv_def wfTanks_def by simp
  have w2: "gm_networkTanks ?gF = filter (\<lambda>kr. en_network (gm_heap ?gF ! snd kr)) (gm_entries ?gF)"
    using iF unfolding netInv_def by simp
  have w3: "p < length (gm_heap ?gF)" using pv len by linarith
  have w4: "list_all (\<lambda>kr. en_network (gm_heap ?gF ! snd kr) \<or> gm_player ?gF = Some (snd kr))
              (gm_entries ?gF)"
    unfolding list_all_iff using lo by blast
  have wF: "wfGame (?gF\<lparr>gm_pending := []\<rparr>)"
    unfolding wfGame_def using w1 w2 w3 w4 by (simp add: pl)
  show ?thesis using t wF aF by simp
qed

subsection \<open>The pending buffer\<close>

text \<open>
  Claim C5. With the player's tank in place and the game state well formed
  (\<open>wfGame\<close>): a snapshot on the channel update that carries the player's own uuid is
  dropped; any other one is stored in the pending buffer under its uuid, replacing an
  earlier snapshot of the same uuid and leaving the other entries alone. The tick sends
  the player's own export, and for every buffered entry it applies the snapshot to the
  proxy of that uuid, which is the proxy that existed before or else a new one that the
  tick has created and added to the tank collection; then the buffer is empty. Both
  steps keep the game state well formed.
\<close>

theorem snapshot_buffer:
  assumes "wfGame g" and "gm_player g = Some p"
  shows "(sp_uuid d = en_uuid (gm_heap g ! p) \<longrightarrow> onUpdate d g = g)
       \<and> (sp_uuid d \<noteq> en_uuid (gm_heap g ! p) \<longrightarrow>
            onUpdate d g = g\<lparr>gm_pending := AList.update (sp_uuid d) d (gm_pending g)\<rparr>
          \<and> map_of (gm_pending (onUpdate d g)) (sp_uuid d) = Some d
          \<and> (\<forall>k. k \<noteq> sp_uuid d \<longrightarrow> map_of (gm_pending (onUpdate d g)) k = map_of (gm_pending g) k)
          \<and> (sp_uuid d2 = sp_uuid d \<longrightarrow>
               map_of (gm_pending (onUpdate d2 (onUpdate d g))) (sp_uuid d) = Some d2))
       \<and> wfGame (onUpdate d g)
       \<and> (\<exists>g'. tick now exported g = Inr g' \<and> gm_pending g' = [] \<and> wfGame g'
            \<and> (\<forall>kd \<in> set (gm_pending g). applied now g g' kd))"
proof -
  have 1: "sp_uuid d = en_uuid (gm_heap g ! p) \<longrightarrow> onUpdate d g = g"
    using assms(2) by (simp add: onUpdate_def)
  have 2: "sp_uuid d \<noteq> en_uuid (gm_heap g ! p) \<longrightarrow>
            onUpdate d g = g\<lparr>gm_pending := AList.update (sp_uuid d) d (gm_pending g)\<rparr>
          \<and> map_of (gm_pending (onUpdate d g)) (sp_uuid d) = Some d
          \<and> (\<forall>k. k \<noteq> sp_uuid d \<longrightarrow> map_of (gm_pending (onUpdate d g)) k = map_of (gm_pending g) k)
          \<and> (sp_uuid d2 = sp_uuid d \<longrightarrow>
               map_of (gm_pending (onUpdate d2 (onUpdate d g))) (sp_uuid d) = Some d2)"
    using assms(2) by (simp add: onUpdate_def update_conv')
  from 1 2 wfGame_onUpdate [OF assms(1), of d] tick_applies [OF assms, of now exported]
  show ?thesis by blast
qed

theorem snapshot_buffer_witness:
  "wfGame sampleBuffered \<and> gm_player sampleBuffered = Some 0
   \<and> gm_pending sampleBuffered = [(''bob'', snapBob2), (''carol'', snapCarol)]
   \<and> (\<exists>g'. tick 100 snapMe sampleBuffered = Inr g' \<and> gm_pending g' = []
          \<and> applied 100 sampleBuffered g' (''bob'', snapBob2)
          \<and> applied 100 sampleBuffered g' (''carol'', snapCarol))"
proof -
  have p: "\<And>d g. gm_player (onUpdate d g) = gm_player (g :: unit Game)"
    by (simp add: onUpdate_def split: option.splits)
  have w0: "wfGame sampleGame" by (simp add: wfGame_def wfTanks_def sampleGame_def)
  have p0: "gm_player sampleGame = Some 0" by (simp add: sampleGame_def)
  have w1: "wfGame (onUpdate snapBob1 sampleGame)"
    using snapshot_buffer [OF w0 p0, where d = snapBob1] by blast
  have p1: "gm_player (onUpdate snapBob1 sampleGame) = Some 0" by (simp add: p p0)
  have w2: "wfGame (onUpdate snapMe (onUpdate snapBob1 sampleGame))"
    using snapshot_buffer [OF w1 p1, where d = snapMe] by blast
  have p2: "gm_player (onUpdate snapMe (onUpdate snapBob1 sampleGame)) = Some 0"
    by (simp add: p p0)
  have w3: "wfGame (onUpdate snapBob2 (onUpdate snapMe (onUpdate snapBob1 sampleGame)))"
    using snapshot_buffer [OF w2 p2, where d = snapBob2] by blast
  have p3: "gm_player (onUpdate snapBob2 (onUpdate snapMe (onUpdate snapBob1 sampleGame))) = Some 0"
    by (simp add: p p0)
  have w: "wfGame sampleBuffered"
    unfolding sampleBuffered_def using snapshot_buffer [OF w3 p3, where d = snapCarol] by blast
  have pl: "gm_player sampleBuffered = Some 0" by (simp add: sampleBuffered_def p p0)
  have pend: "gm_pending sampleBuffered = [(''bob'', snapBob2), (''carol'', snapCarol)]"
    by (simp add: sampleBuffered_def onUpdate_def sampleGame_def snapBob1_def snapBob2_def
        snapMe_def snapCarol_def)
  from snapshot_buffer [OF w pl, where now = 100 and exported = snapMe]
  obtain g' where g': "tick 100 snapMe sampleBuffered = Inr g'" "gm_pending g' = []"
    "\<forall>kd \<in> set (gm_pending sampleBuffered). applied 100 sampleBuffered g' kd"
    by blast
  from g'(3) have "applied 100 sampleBuffered g' (''bob'', snapBob2)"
    "applied 100 sampleBuffered g' (''carol'', snapCarol)"
    by (simp_all add: pend)
  with g'(1,2) w pl pend show ?thesis by blast
qed

subsection \<open>The invariant under eviction\<close>

text \<open>A step of the simulation keeps the game state well formed as well.\<close>

lemma alist_delete_filter:
  "AList.delete k (filter P al) = filter P (AList.delete k al)"
  by (induction al) (auto simp: AList.delete_eq)

lemma tm_delete_fields [simp]:
  "gm_networkTanks (tm_delete k g) = AList.delete k (gm_networkTanks g)"
  "gm_player (tm_delete k g) = gm_player g"
  "gm_pending (tm_delete k g) = gm_pending g"
  by (simp_all add: tm_delete_def Let_def destroy_def split: option.splits)

lemma wfGame_tm_delete:
  assumes "wfGame g"
  shows "wfGame (tm_delete k g)"
proof -
  let ?g = "tm_delete k g"
  from assms have a: "wfTanks g"
    "gm_networkTanks g = filter (\<lambda>kr. en_network (gm_heap g ! snd kr)) (gm_entries g)"
    "distinct (map fst (gm_pending g))"
    "list_all (\<lambda>kd. sp_uuid (snd kd) = fst kd) (gm_pending g)"
    "case gm_player g of None \<Rightarrow> True
     | Some p \<Rightarrow> p < length (gm_heap g) \<and>
                 list_all (\<lambda>kd. fst kd \<noteq> en_uuid (gm_heap g ! p)) (gm_pending g)"
    "\<And>kr. kr \<in> set (gm_entries g) \<Longrightarrow>
       en_network (gm_heap g ! snd kr) \<or> gm_player g = Some (snd kr)"
    unfolding wfGame_def list_all_iff by simp_all
  have 1: "wfTanks ?g" using a(1) by (rule wfTanks_tm_delete)
  have 2: "gm_networkTanks ?g = filter (\<lambda>kr. en_network (gm_heap ?g ! snd kr)) (gm_entries ?g)"
    by (simp add: a(2) alist_delete_filter tm_delete_heap_nth)
  have 5: "case gm_player ?g of None \<Rightarrow> True
     | Some p \<Rightarrow> p < length (gm_heap ?g) \<and>
                 list_all (\<lambda>kd. fst kd \<noteq> en_uuid (gm_heap ?g ! p)) (gm_pending ?g)"
    using a(5) by (simp add: tm_delete_heap_nth split: option.splits)
  have 6: "list_all (\<lambda>kr. en_network (gm_heap ?g ! snd kr) \<or> gm_player ?g = Some (snd kr))
             (gm_entries ?g)"
    unfolding list_all_iff using a(6) by (simp add: tm_delete_heap_nth set_alist_delete)
  show ?thesis unfolding wfGame_def using 1 2 a(3) a(4) 5 6 by simp
qed

lemma wfGame_updateLoop: "wfGame g \<Longrightarrow> wfGame (updateLoop now delta ws g)"
proof (induction ws arbitrary: g)
  case Nil
  then show ?case by simp
next
  case (Cons kr ws)
  obtain k r where kr: "kr = (k, r)" by (cases kr)
  from Cons.prems have "wfGame (tm_remove r g)"
    unfolding tm_remove_def by (rule wfGame_tm_delete)
  with Cons.prems Cons.IH show ?case by (simp add: kr)
qed

lemma wfGame_update: "wfGame g \<Longrightarrow> wfGame (update now delta g)"
  unfolding update_def by (rule wfGame_updateLoop)

section \<open>Properties of the tank\<close>

text \<open>
  Claim C7. The deciding code, the write path of the class \<open>Properties\<close>, is modelled
  from the spec; the definition of the health property is the one of the source. On a
  tank whose health is positive, setting the health to -30 stores 0 and calls \<open>die\<close>
  once; setting it to -10 afterwards stores 0 again, changes nothing and does not call
  \<open>die\<close> again. A hit whose damage exceeds the health by 30 is the same write.
\<close>

theorem health_clamp_transition:
  assumes "tk_health t > 0"
  shows "(let t1 = setHealth (- 30) t; t2 = setHealth (- 10) t1 in
            tk_health t1 = 0 \<and> deaths t1 = deaths t + 1
          \<and> tk_health t2 = 0 \<and> deaths t2 = deaths t + 1 \<and> t2 = t1
          \<and> hit (tk_health t + 30) t = t1)"
  using assms
  by (simp add: Let_def setHealth_def hit_def writeProperty_def healthDefinition_def die_def
      effect_def deaths_def)

theorem health_clamp_transition_witness:
  "tk_health sampleTank > 0
   \<and> tk_health (setHealth (- 30) sampleTank) = 0
   \<and> deaths (setHealth (- 30) sampleTank) = 1
   \<and> deaths (setHealth (- 10) (setHealth (- 30) sampleTank)) = 1
   \<and> tk_health (setHealth (- 10) (setHealth (- 30) sampleTank)) = 0"
proof -
  have h: "tk_health sampleTank > 0" by (simp add: sampleTank_def)
  have d: "deaths sampleTank = 0" by (simp add: sampleTank_def deaths_def)
  from health_clamp_transition [OF h] h d show ?thesis by (simp add: Let_def)
qed

text \<open>
  Claim C10. When fewer than 750 ms have passed since the last successful shot, or the
  tank is dead, \<open>shoot\<close> returns false and changes nothing, so no bullet is made;
  otherwise it returns true, makes one bullet and stores the time of the shot. The
  player's tank sends one event tank:shoot when \<open>shoot\<close> returned true and none when it
  returned false; \<open>Tank.shoot\<close> itself sends none.
\<close>

theorem shoot_cooldown:
  "((now - tk_lastShot t < 750 \<or> tk_health t \<le> 0) \<longrightarrow>
       shoot now now' t = (False, t) \<and> playerShoot now now' t = (False, t))
   \<and> (\<not> (now - tk_lastShot t < 750 \<or> tk_health t \<le> 0) \<longrightarrow>
       fst (shoot now now' t) \<and> bullets (snd (shoot now now' t)) = bullets t + 1
       \<and> tk_lastShot (snd (shoot now now' t)) = now'
       \<and> fst (playerShoot now now' t) \<and> bullets (snd (playerShoot now now' t)) = bullets t + 1
       \<and> tk_lastShot (snd (playerShoot now now' t)) = now')
   \<and> shootEvents (snd (shoot now now' t)) = shootEvents t
   \<and> shootEvents (snd (playerShoot now now' t)) =
       shootEvents t + (if fst (playerShoot now now' t) then 1 else 0)"
  by (auto simp: shoot_def playerShoot_def isDead_def bullets_def shootEvents_def effect_def
      createBullet_def)

theorem shoot_cooldown_witness:
  "\<not> (1000 - tk_lastShot sampleTank < 750 \<or> tk_health sampleTank \<le> 0)
   \<and> fst (playerShoot 1000 1001 sampleTank)
   \<and> bullets (snd (playerShoot 1000 1001 sampleTank)) = 1
   \<and> shootEvents (snd (playerShoot 1000 1001 sampleTank)) = 1
   \<and> 1500 - tk_lastShot (snd (playerShoot 1000 1001 sampleTank)) < 750
   \<and> playerShoot 1500 1501 (snd (playerShoot 1000 1001 sampleTank)) =
       (False, snd (playerShoot 1000 1001 sampleTank))"
proof -
  have h: "\<not> (1000 - tk_lastShot sampleTank < 750 \<or> tk_health sampleTank \<le> 0)"
    by (simp add: sampleTank_def)
  have z: "bullets sampleTank = 0" "shootEvents sampleTank = 0"
    by (simp_all add: sampleTank_def bullets_def shootEvents_def)
  from shoot_cooldown [of 1000 sampleTank 1001] h z
  have a: "fst (playerShoot 1000 1001 sampleTank)"
    "bullets (snd (playerShoot 1000 1001 sampleTank)) = 1"
    "shootEvents (snd (playerShoot 1000 1001 sampleTank)) = 1"
    "tk_lastShot (snd (playerShoot 1000 1001 sampleTank)) = 1001"
    by simp_all
  have b: "1500 - tk_lastShot (snd (playerShoot 1000 1001 sampleTank)) < 750"
    by (simp add: a)
  from shoot_cooldown [of 1500 "snd (playerShoot 1000 1001 sampleTank)" 1501] b
  have "playerShoot 1500 1501 (snd (playerShoot 1000 1001 sampleTank)) =
       (False, snd (playerShoot 1000 1001 sampleTank))"
    by blast
  with h a b show ?thesis by simp
qed

section \<open>Properties of the chat\<close>

lemma addMessage_below_cap:
  "length ms < 50 \<Longrightarrow> set (addMessage m ms) = insert m (set ms)"
  by (simp add: addMessage_def Let_def)

text \<open>
  The rate limit. A submission that passes the guard with a non-empty input while the
  network has peer data transmits one chat message (trimmed, at most 100 code units),
  hands it to \<open>addMessage\<close> and stores the time. A second submission less than 600 ms
  after the first one, whatever has been typed in the meantime, returns at the guard:
  nothing is transmitted, nothing is added and the state does not change. The clock does
  not run backwards between the guard and the end of \<open>send\<close>.
\<close>

lemma rate_limit_guard:
  assumes "600 \<le> now1 - cu_lastMessageTime s" and "cu_input s \<noteq> []"
      and "now1 \<le> end1" and "now2 - now1 < 600"
  shows "(let s1 = handleSubmit (Some pd) now1 date1 end1 s;
              s2 = handleSubmit peerData2 now2 date2 end2 (s1\<lparr>cu_input := txt\<rparr>);
              m = take 100 (trim (cu_input s));
              cm = \<lparr>cm_from = pd, cm_message = m, cm_date = date1\<rparr> in
            cu_sent s1 = cu_sent s @ [(m, date1)]
          \<and> cu_messages s1 = addMessage cm (cu_messages s)
          \<and> (length (cu_messages s) < 50 \<longrightarrow> set (cu_messages s1) = insert cm (set (cu_messages s)))
          \<and> s2 = s1\<lparr>cu_input := txt\<rparr>
          \<and> cu_sent s2 = cu_sent s @ [(m, date1)]
          \<and> cu_messages s2 = cu_messages s1)"
  using assms
  by (simp add: Let_def handleSubmit_def chatSend_def addMessage_below_cap)

lemma trim_sample: "trim (cu_input sampleChat) = units ''hello''"
  by (simp add: sampleChat_def trim_def isSpace_def units_def)

text \<open>
  When the list holds 50 messages or more and the new message is newer than all of
  them, the sort puts it first and \<open>slice(-50)\<close> cuts it off.
\<close>

lemma sort_newest_first:
  assumes "\<forall>x \<in> set ms. cm_date x < cm_date m"
  shows "sort_key (\<lambda>x. - cm_date x) (ms @ [m]) = m # sort_key (\<lambda>x. - cm_date x) ms"
proof -
  have "foldr (insort_key (\<lambda>x. - cm_date x)) ms [m] =
      m # foldr (insort_key (\<lambda>x. - cm_date x)) ms []"
    using assms
  proof (induction ms)
    case Nil
    show ?case by simp
  next
    case (Cons a ms)
    then have "\<not> - cm_date a \<le> - cm_date m" by simp
    with Cons show ?case by simp
  qed
  then show ?thesis by (simp add: sort_key_def)
qed

lemma addMessage_newest_at_cap:
  assumes "50 \<le> length ms" and "\<forall>x \<in> set ms. cm_date x < cm_date m"
  shows "addMessage m ms = drop (length ms - 50) (sort_key (\<lambda>x. - cm_date x) ms)"
    and "m \<notin> set (addMessage m ms)"
proof -
  have d: "length ms - 49 = Suc (length ms - 50)"
    using assms(1) by simp
  show a: "addMessage m ms = drop (length ms - 50) (sort_key (\<lambda>x. - cm_date x) ms)"
    by (simp add: addMessage_def Let_def sort_newest_first [OF assms(2)] d)
  have "m \<notin> set ms" using assms(2) by auto
  then have "m \<notin> set (drop (length ms - 50) (sort_key (\<lambda>x. - cm_date x) ms))"
    using set_drop_subset [of "length ms - 50" "sort_key (\<lambda>x. - cm_date x) ms"] by auto
  then show "m \<notin> set (addMessage m ms)" unfolding a .
qed

text \<open>
  Claim C8. The first of two submissions is transmitted, but it is not always appended
  to the local message list. In a chat whose list holds 50 messages, all older than the
  one submitted, a submission at 1000 (the last one was at 0) passes the guard and
  \<open>hello\<close> is handed to \<open>network.channel('chat').send\<close>; \<open>addMessage\<close> sorts
  the 51 messages newest first and keeps \<open>slice(-50)\<close>, the 50 oldest, so the list
  is what it was and the message sent is not in it. A second submission 500 ms later
  returns at the guard, as the claim says.
\<close>

theorem chat_message_lost_at_cap:
  "length (cu_messages fullChat) = 50
   \<and> cu_sent (handleSubmit (Some samplePeer) 1000 1001 1002 fullChat) = [(units ''hello'', 1001)]
   \<and> cu_messages (handleSubmit (Some samplePeer) 1000 1001 1002 fullChat) = cu_messages fullChat
   \<and> \<lparr>cm_from = samplePeer, cm_message = units ''hello'', cm_date = 1001\<rparr>
       \<notin> set (cu_messages (handleSubmit (Some samplePeer) 1000 1001 1002 fullChat))
   \<and> handleSubmit (Some samplePeer) 1500 1500 1501
        ((handleSubmit (Some samplePeer) 1000 1001 1002 fullChat)\<lparr>cu_input := units ''again''\<rparr>)
       = (handleSubmit (Some samplePeer) 1000 1001 1002 fullChat)\<lparr>cu_input := units ''again''\<rparr>"
proof -
  let ?m = "\<lparr>cm_from = samplePeer, cm_message = units ''hello'', cm_date = 1001\<rparr>"
  have len: "length (cu_messages fullChat) = 50"
    by (simp add: fullChat_def)
  have old: "\<forall>x \<in> set (cu_messages fullChat). cm_date x < cm_date ?m"
    by (auto simp: fullChat_def oldMessage_def)
  have srt: "sort_key (\<lambda>x. - cm_date x) (cu_messages fullChat) = cu_messages fullChat"
    by code_simp
  have t: "take 100 (trim (cu_input fullChat)) = units ''hello''"
    by (simp add: fullChat_def trim_def isSpace_def units_def)
  have a: "addMessage ?m (cu_messages fullChat) = cu_messages fullChat"
    using addMessage_newest_at_cap(1) [of "cu_messages fullChat" ?m] old
    by (simp add: len srt)
  have n: "?m \<notin> set (cu_messages fullChat)"
    using old by auto
  have i: "cu_input fullChat \<noteq> []" "cu_lastMessageTime fullChat = 0" "cu_sent fullChat = []"
    by (simp_all add: fullChat_def units_def)
  have s1: "handleSubmit (Some samplePeer) 1000 1001 1002 fullChat =
      fullChat\<lparr>cu_sent := [(units ''hello'', 1001)], cu_lastMessageTime := 1002, cu_input := []\<rparr>"
    by (simp add: handleSubmit_def chatSend_def Let_def i t a)
  show ?thesis
    unfolding s1 using n by (simp add: len handleSubmit_def)
qed

end
